theory Spec2Isabelle
  imports Main "HOL-Library.Char_ord" "HOL-Library.List_Lexorder" "HOL-Library.AList"
begin

section \<open>The task template manager: data model\<close>

text \<open>
  Instants (\<open>time.Time\<close>) and durations (\<open>time.Duration\<close>, nanoseconds) are integers;
  the zero instant \<open>time.Time{}\<close> is \<open>0\<close>, so \<open>t.After(u) || t.Equal(u)\<close> is \<open>u \<le> t\<close>.
  Pointers to structs are modelled by the structs themselves where the code never tests
  them against nil, and by \<open>option\<close> where it does. A map that the code only reads and
  writes by key is a partial function; a map that the code iterates is the list of its
  entries in the order of the iteration, with distinct keys.
\<close>

type_synonym time = int
type_synonym duration = int
type_synonym os_Signal = nat

text \<open>
  Modelled from the spec: the change-mode constants \<open>structs.TemplateChangeMode*\<close> of the job
  structures are not among the sources; the spec names the modes noop, signal, restart and
  script. The field \<open>ChangeMode\<close> is a string, so other values can occur.
\<close>

definition TemplateChangeModeNoop :: string where
  "TemplateChangeModeNoop = ''noop''"

definition TemplateChangeModeSignal :: string where
  "TemplateChangeModeSignal = ''signal''"

definition TemplateChangeModeRestart :: string where
  "TemplateChangeModeRestart = ''restart''"

definition TemplateChangeModeScript :: string where
  "TemplateChangeModeScript = ''script''"

record change_script =
  Command :: string
  Args :: "string list"
  Timeout :: duration
  FailOnError :: bool

record wait_config =
  Min_wait :: "duration option"
  Max_wait :: "duration option"

record template =
  SourcePath :: string
  DestPath :: string
  EmbeddedTmpl :: string
  ChangeMode :: string
  ChangeSignal :: string
  ChangeScript :: change_script
  Splay :: duration
  Perms :: string
  Uid :: "int option"
  Gid :: "int option"
  LeftDelim :: string
  RightDelim :: string
  ErrMissingKey :: bool
  Envvars :: bool
  Wait :: "wait_config option"
  Once :: bool

record client_template_config =
  DisableSandbox :: bool
  FunctionDenylist :: "string list"

record client_config =
  TemplateConfig :: "client_template_config option"

text \<open>
  \<open>TaskTemplateManagerConfig\<close>. The collaborators that \<open>Validate\<close> only tests against nil
  are \<open>unit option\<close>; their behaviour is supplied separately (records \<open>externals\<close> and
  \<open>world\<close> below). Fields that only \<open>newRunnerConfig\<close> reads are left out.
\<close>

record config =
  UnblockCh :: "unit option"
  Lifecycle :: "unit option"
  Events :: "unit option"
  Templates :: "template list"
  ClientConfig :: "client_config option"
  TaskDir :: string
  EnvBuilder :: "unit option"
  MaxTemplateEventRate :: duration

datatype parse_err = ErrSyntax | ErrRange

datatype error =
    NilConfig
  | InvalidUnblockCh
  | InvalidLifecycle
  | InvalidEvents
  | InvalidClientConfig
  | InvalidTaskDir string
  | InvalidEnvBuilder
  | InvalidMaxTemplateEventRate
  | OnceMismatch
  | FailedToParseSignal string
  | sourceEscapesErr
  | destEscapesErr
  | WaitMinGreaterThanMax duration duration
  | FailedToParseOctal string parse_err
  | RunnerConfigError string
  | NewRunnerError string
  | NilDereference

text \<open>The translated descriptor (\<open>ctconf.TemplateConfig\<close>), with the fields the translator sets.\<close>

record ct_wait =
  Enabled :: bool
  ct_Min :: "duration option"
  ct_Max :: "duration option"

record ct_template =
  ct_Source :: string
  ct_Destination :: string
  ct_Contents :: string
  ct_LeftDelim :: string
  ct_RightDelim :: string
  ct_ErrMissingKey :: bool
  ct_FunctionDenylist :: "string list"
  ct_SandboxPath :: "string option"
  ct_Wait :: "ct_wait option"
  ct_Perms :: "nat option"
  ct_Uid :: "int option"
  ct_Gid :: "int option"

text \<open>
  What construction takes from outside the package: the signal parser of the rendering
  library, the task environment (\<open>EnvBuilder.Build()\<close>: \<open>ClientPath\<close> and \<open>All\<close>, here \<open>All_env\<close>), the process
  environment (\<open>os.Environ()\<close>), and the engine constructor. \<open>newRunnerConfig\<close> assembles the
  engine configuration from client settings, credentials and retry bounds; here only its
  outcome matters (an error, or a configuration that \<open>manager.NewRunner\<close> accepts or not), so
  both are parameters. The id table that the engine assigns to the descriptors
  (\<open>TemplateConfigMapping\<close>, composed with the descriptor-to-template table) is a parameter too.
\<close>

record externals =
  signals_Parse :: "string \<Rightarrow> os_Signal option"
  ClientPath :: "string \<Rightarrow> bool \<Rightarrow> string \<times> bool"
  All_env :: "string \<rightharpoonup> string"
  os_Environ :: "string list"
  newRunnerConfig :: "config \<Rightarrow> (ct_template \<times> template) list \<Rightarrow> string option"
  manager_NewRunner :: "config \<Rightarrow> (ct_template \<times> template) list \<Rightarrow> string option"
  TemplateConfigMapping :: "(ct_template \<times> template) list \<Rightarrow> (string \<times> template list) list"

record runner =
  Env :: "string \<rightharpoonup> string"

datatype chan = Open | Closed

record manager =
  config :: config
  lookup :: "(string \<times> template list) list"
  runner :: "runner option"
  signals :: "string \<rightharpoonup> os_Signal"
  shutdownCh :: chan
  shutdown :: bool

section \<open>Construction\<close>

text \<open>\<open>Validate\<close>: the pre-conditions of construction, in the order of the source.\<close>

fun once_consistent :: "bool \<Rightarrow> template list \<Rightarrow> bool" where
  "once_consistent once [] = True"
| "once_consistent once (t # ts) = (if Once t \<noteq> once then False else once_consistent once ts)"

definition Validate :: "config option \<Rightarrow> error option" where
  "Validate c =
     (case c of
        None \<Rightarrow> Some NilConfig
      | Some c \<Rightarrow>
          if UnblockCh c = None then Some InvalidUnblockCh
          else if Lifecycle c = None then Some InvalidLifecycle
          else if Events c = None then Some InvalidEvents
          else if ClientConfig c = None then Some InvalidClientConfig
          else if TaskDir c = [] then Some (InvalidTaskDir (TaskDir c))
          else if EnvBuilder c = None then Some InvalidEnvBuilder
          else if MaxTemplateEventRate c = 0 then Some InvalidMaxTemplateEventRate
          else (case Templates c of
                  [] \<Rightarrow> None
                | t # ts \<Rightarrow> if once_consistent (Once t) ts then None else Some OnceMismatch))"

text \<open>
  The signal loop of \<open>NewTaskTemplateManager\<close>. A nil table and an empty one read alike, so
  the table starts empty.
\<close>

fun parse_signals ::
  "(string \<Rightarrow> os_Signal option) \<Rightarrow> template list \<Rightarrow> (string \<rightharpoonup> os_Signal) \<Rightarrow>
   error + (string \<rightharpoonup> os_Signal)" where
  "parse_signals parse [] tbl = Inr tbl"
| "parse_signals parse (tmpl # tmpls) tbl =
     (if ChangeSignal tmpl = [] then parse_signals parse tmpls tbl
      else case parse (ChangeSignal tmpl) of
             None \<Rightarrow> Inl (FailedToParseSignal (ChangeSignal tmpl))
           | Some sig \<Rightarrow> parse_signals parse tmpls (tbl(ChangeSignal tmpl \<mapsto> sig)))"

text \<open>
  \<open>strconv.ParseUint(s, 8, 12)\<close> on a non-empty string: the digits are read left to right;
  a byte that is no octal digit is a syntax error, a value above \<open>2^12 - 1\<close> a range error,
  whichever comes first. (The 64-bit overflow tests of the library cannot fire while the
  accumulator is at most 4095.)
\<close>

fun ParseUint_loop :: "nat \<Rightarrow> string \<Rightarrow> parse_err + nat" where
  "ParseUint_loop n [] = Inr n"
| "ParseUint_loop n (c # cs) =
     (if \<not> (CHR ''0'' \<le> c \<and> c \<le> CHR ''7'') then Inl ErrSyntax
      else let n1 = n * 8 + (of_char c - 48) in
           if n1 > 4095 then Inl ErrRange else ParseUint_loop n1 cs)"

definition ParseUint_8_12 :: "string \<Rightarrow> parse_err + nat" where
  "ParseUint_8_12 s = (if s = [] then Inl ErrSyntax else ParseUint_loop 0 s)"

text \<open>
  Modelled from the spec: \<open>WaitConfig.Validate\<close> of the job structures is not among the
  sources; the spec's error table gives it as "wait min/max inverted".
\<close>

definition Wait_Validate :: "wait_config \<Rightarrow> error option" where
  "Wait_Validate wc =
     (case (Min_wait wc, Max_wait wc) of
        (Some mn, Some mx) \<Rightarrow> if mn > mx then Some (WaitMinGreaterThanMax mn mx) else None
      | _ \<Rightarrow> None)"

text \<open>
  The body of the loop of \<open>parseTemplateConfigs\<close> for one template. The engine's defaults
  (\<open>DefaultTemplateConfig\<close>, \<open>Finalize\<close>) are left out: the descriptor holds the fields as
  the loop assigns them, where the code's \<open>Finalize\<close> goes on to fill in a permission of 0
  for empty \<open>Perms\<close>, a maximum wait of four times the minimum when none is given, and a
  disabled wait when there is none. Failure and success of the translation do not depend
  on it.
\<close>

definition parseTemplateConfig ::
  "externals \<Rightarrow> bool \<Rightarrow> config \<Rightarrow> client_template_config \<Rightarrow> template \<Rightarrow> error + ct_template" where
  "parseTemplateConfig ext sandboxEnabled cfg tc tmpl =
     (let (src, src_escapes) =
            (if SourcePath tmpl \<noteq> [] then ClientPath ext (SourcePath tmpl) False else ([], False))
      in if src_escapes \<and> sandboxEnabled then Inl sourceEscapesErr
      else
        let (dest, dest_escapes) =
              (if DestPath tmpl \<noteq> [] then ClientPath ext (DestPath tmpl) True else ([], False))
        in if dest_escapes \<and> sandboxEnabled then Inl destEscapesErr
        else
          case (case Wait tmpl of None \<Rightarrow> None | Some w \<Rightarrow> Wait_Validate w) of
            Some err \<Rightarrow> Inl err
          | None \<Rightarrow>
              (case (if Perms tmpl \<noteq> [] then ParseUint_8_12 (Perms tmpl) else Inr 0) of
                 Inl err \<Rightarrow> Inl (FailedToParseOctal (Perms tmpl) err)
               | Inr v \<Rightarrow>
                   Inr \<lparr> ct_Source = src,
                         ct_Destination = dest,
                         ct_Contents = EmbeddedTmpl tmpl,
                         ct_LeftDelim = LeftDelim tmpl,
                         ct_RightDelim = RightDelim tmpl,
                         ct_ErrMissingKey = ErrMissingKey tmpl,
                         ct_FunctionDenylist = FunctionDenylist tc,
                         ct_SandboxPath = (if sandboxEnabled then Some (TaskDir cfg) else None),
                         ct_Wait = (case Wait tmpl of
                                      None \<Rightarrow> None
                                    | Some w \<Rightarrow> Some \<lparr> Enabled = True, ct_Min = Min_wait w,
                                                         ct_Max = Max_wait w \<rparr>),
                         ct_Perms = (if Perms tmpl \<noteq> [] then Some v else None),
                         ct_Uid = (case Uid tmpl of
                                     Some u \<Rightarrow> if u \<ge> 0 then Some u else None
                                   | None \<Rightarrow> None),
                         ct_Gid = (case Gid tmpl of
                                     Some g \<Rightarrow> if g \<ge> 0 then Some g else None
                                   | None \<Rightarrow> None) \<rparr>))"

fun parseTemplateConfigs_loop ::
  "externals \<Rightarrow> bool \<Rightarrow> config \<Rightarrow> client_template_config \<Rightarrow> template list \<Rightarrow>
   (ct_template \<times> template) list \<Rightarrow> error + (ct_template \<times> template) list" where
  "parseTemplateConfigs_loop ext sb cfg tc [] ctmpls = Inr ctmpls"
| "parseTemplateConfigs_loop ext sb cfg tc (tmpl # tmpls) ctmpls =
     (case parseTemplateConfig ext sb cfg tc tmpl of
        Inl err \<Rightarrow> Inl err
      | Inr ct \<Rightarrow> parseTemplateConfigs_loop ext sb cfg tc tmpls (ctmpls @ [(ct, tmpl)]))"

text \<open>
  \<open>parseTemplateConfigs\<close>. The source reads \<open>config.ClientConfig.TemplateConfig.DisableSandbox\<close>
  without a nil test; a nil pointer there is the error \<open>NilDereference\<close>.
\<close>

definition parseTemplateConfigs :: "externals \<Rightarrow> config \<Rightarrow> error + (ct_template \<times> template) list" where
  "parseTemplateConfigs ext cfg =
     (case ClientConfig cfg of
        None \<Rightarrow> Inl NilDereference
      | Some cc \<Rightarrow>
          (case TemplateConfig cc of
             None \<Rightarrow> Inl NilDereference
           | Some tc \<Rightarrow>
               parseTemplateConfigs_loop ext (\<not> DisableSandbox tc) cfg tc (Templates cfg) []))"

text \<open>
  \<open>strings.SplitN(s, sep, 2)\<close> for a one-byte separator: the text before the first
  separator and the rest, or the whole string when there is no separator.
\<close>

definition SplitN2 :: "string \<Rightarrow> char \<Rightarrow> string list" where
  "SplitN2 s sep =
     (if sep \<in> set s
      then [takeWhile (\<lambda>c. c \<noteq> sep) s, tl (dropWhile (\<lambda>c. c \<noteq> sep) s)]
      else [s])"

text \<open>
  \<open>maskProcessEnv\<close>; the process environment (\<open>os.Environ()\<close>) is the first argument.
  \<open>ekv[0]\<close> always exists, since \<open>SplitN2\<close> never returns an empty list.
\<close>

fun maskProcessEnv :: "string list \<Rightarrow> (string \<rightharpoonup> string) \<Rightarrow> (string \<rightharpoonup> string)" where
  "maskProcessEnv [] env = env"
| "maskProcessEnv (e # procEnvs) env =
     (let ekv = SplitN2 e CHR ''=''
      in maskProcessEnv procEnvs (if env (ekv ! 0) = None then env(ekv ! 0 \<mapsto> []) else env))"

definition templateRunner ::
  "externals \<Rightarrow> config \<Rightarrow> error + (runner option \<times> (string \<times> template list) list)" where
  "templateRunner ext cfg =
     (if Templates cfg = [] then Inr (None, [])
      else case parseTemplateConfigs ext cfg of
             Inl err \<Rightarrow> Inl err
           | Inr ctmplMapping \<Rightarrow>
               (case newRunnerConfig ext cfg ctmplMapping of
                  Some err \<Rightarrow> Inl (RunnerConfigError err)
                | None \<Rightarrow>
                    (case manager_NewRunner ext cfg ctmplMapping of
                       Some err \<Rightarrow> Inl (NewRunnerError err)
                     | None \<Rightarrow>
                         Inr (Some \<lparr> Env = maskProcessEnv (os_Environ ext) (All_env ext) \<rparr>,
                              TemplateConfigMapping ext ctmplMapping))))"

definition NewTaskTemplateManager :: "externals \<Rightarrow> config option \<Rightarrow> error + manager" where
  "NewTaskTemplateManager ext c =
     (case Validate c of
        Some err \<Rightarrow> Inl err
      | None \<Rightarrow>
          (case c of
             None \<Rightarrow> Inl NilConfig
           | Some cfg \<Rightarrow>
               (case parse_signals (signals_Parse ext) (Templates cfg) Map.empty of
                  Inl err \<Rightarrow> Inl err
                | Inr sigs \<Rightarrow>
                    (case templateRunner ext cfg of
                       Inl err \<Rightarrow> Inl err
                     | Inr (rn, lk) \<Rightarrow>
                         Inr \<lparr> config = cfg, lookup = lk, runner = rn, signals = sigs,
                               shutdownCh = Open, shutdown = False \<rparr>))))"

section \<open>Collaborators, events and effects\<close>

text \<open>
  Modelled from the spec: the task events of the job structures (\<open>NewTaskEvent\<close> and its
  setters) are not among the sources; an event carries its type, the fails-task flag, the
  display message and the signal. The event-type constants are kept symbolic.
\<close>

datatype event_type =
    TaskKilling
  | TaskRestartSignal
  | TaskSignaling
  | TaskHookFailed
  | TaskHookMessage
  | EventType string

record task_event =
  Type :: event_type
  FailsTask :: bool
  DisplayMessage :: string
  TaskSignal :: "os_Signal option"

definition NewTaskEvent :: "event_type \<Rightarrow> task_event" where
  "NewTaskEvent ty = \<lparr> Type = ty, FailsTask = False, DisplayMessage = [], TaskSignal = None \<rparr>"

definition SetFailsTask :: "task_event \<Rightarrow> task_event" where
  "SetFailsTask e = e\<lparr> FailsTask := True \<rparr>"

definition SetDisplayMessage :: "string \<Rightarrow> task_event \<Rightarrow> task_event" where
  "SetDisplayMessage msg e = e\<lparr> DisplayMessage := msg \<rparr>"

definition SetTaskSignal :: "os_Signal option \<Rightarrow> task_event \<Rightarrow> task_event" where
  "SetTaskSignal s e = e\<lparr> TaskSignal := s \<rparr>"

definition consulTemplateSourceName :: string where
  "consulTemplateSourceName = ''Template''"

definition missingDepEventLimit :: nat where
  "missingDepEventLimit = 3"

text \<open>
  Every call that leaves the manager is an effect; a run of the manager yields the list
  of its effects in order.
\<close>

datatype effect =
    Kill task_event
  | Signal task_event string
  | Restart task_event bool
  | Exec duration string "string list"
  | EmitEvent task_event
  | SetTemplateEnv "string \<rightharpoonup> string"
  | Sleep duration
  | TimerReset duration
  | close_shutdownCh
  | runner_Stop
  | panic string

datatype env_file = OpenError string | ParseError string | Vars "string \<rightharpoonup> string"

text \<open>
  What one run of the dispatcher meets outside the manager. The task environment and the
  files are read once for each render event that is handled, so both are indexed by the id
  of that event. \<open>Int63n\<close> is the random source, \<open>shutdown_during_sleep\<close> tells whether the
  shutdown channel wins the select against the splay timer. The two formatting functions
  stand for \<open>%v\<close> on a signal slice and on an aggregate error.
\<close>

record world =
  taskEnv_at :: "string \<Rightarrow> string \<Rightarrow> bool \<Rightarrow> string \<times> bool"
  files_at :: "string \<Rightarrow> string \<Rightarrow> env_file"
  Int63n :: "int \<Rightarrow> int"
  shutdown_during_sleep :: bool
  Lifecycle_Signal :: "string \<Rightarrow> string option"
  Lifecycle_Exec :: "change_script \<Rightarrow> int \<times> string option"
  Lifecycle_IsRunning :: bool
  Sprint_signals :: "os_Signal option list \<Rightarrow> string"
  multierror_Error :: "string list \<Rightarrow> string"

record render_event =
  TemplateID :: string
  LastWouldRender :: time
  LastDidRender :: time
  MissingDeps :: "string list option"

section \<open>Formatting\<close>

fun Join :: "string list \<Rightarrow> string \<Rightarrow> string" where
  "Join [] sep = []"
| "Join [x] sep = x"
| "Join (x # y # zs) sep = x @ sep @ Join (y # zs) sep"

fun itoa_nat :: "nat \<Rightarrow> string" where
  "itoa_nat n =
     (if n < 10 then [''0123456789'' ! n]
      else itoa_nat (n div 10) @ [''0123456789'' ! (n mod 10)])"

declare itoa_nat.simps [simp del]

definition itoa :: "int \<Rightarrow> string" where
  "itoa i = (if i < 0 then CHR ''-'' # itoa_nat (nat (- i)) else itoa_nat (nat i))"

text \<open>
  \<open>%v\<close> on a string slice, and \<open>%q\<close>. The escaping that \<open>%q\<close> applies to a quote, a backslash
  or a non-printable byte is left out, so \<open>quoted\<close> agrees with the code only on strings
  without such characters. It is used in message texts only.
\<close>

definition Sprint_strings :: "string list \<Rightarrow> string" where
  "Sprint_strings xs = ''['' @ Join xs '' '' @ '']''"

definition quoted :: "string \<Rightarrow> string" where
  "quoted s = CHR 0x22 # s @ [CHR 0x22]"

section \<open>The env-template harvester\<close>

fun loadTemplateEnv_loop ::
  "(string \<Rightarrow> bool \<Rightarrow> string \<times> bool) \<Rightarrow> (string \<Rightarrow> env_file) \<Rightarrow> template list \<Rightarrow>
   (string \<rightharpoonup> string) \<Rightarrow> string + (string \<rightharpoonup> string)" where
  "loadTemplateEnv_loop clientPath files [] all = Inr all"
| "loadTemplateEnv_loop clientPath files (t # tmpls) all =
     (if \<not> Envvars t then loadTemplateEnv_loop clientPath files tmpls all
      else let dest = fst (clientPath (DestPath t) True)
           in case files dest of
                OpenError err \<Rightarrow> Inl (''error opening env template: '' @ err)
              | ParseError err \<Rightarrow>
                  Inl (''error parsing env template '' @ quoted dest @ '': '' @ err)
              | Vars vars \<Rightarrow> loadTemplateEnv_loop clientPath files tmpls (all ++ vars))"

definition loadTemplateEnv ::
  "template list \<Rightarrow> (string \<Rightarrow> bool \<Rightarrow> string \<times> bool) \<Rightarrow> (string \<Rightarrow> env_file) \<Rightarrow>
   string + (string \<rightharpoonup> string)" where
  "loadTemplateEnv tmpls clientPath files = loadTemplateEnv_loop clientPath files tmpls Map.empty"

section \<open>The re-render dispatcher\<close>

text \<open>The aggregates of one call of \<open>onTemplateRendered\<close>; the signal set is a duplicate-free list.\<close>

record batch =
  handling :: "string list"
  signal_set :: "string list"
  scripts :: "change_script list"
  restart :: bool
  splay :: duration

definition empty_batch :: batch where
  "empty_batch = \<lparr> handling = [], signal_set = [], scripts = [], restart = False, splay = 0 \<rparr>"

definition bump_splay :: "template \<Rightarrow> batch \<Rightarrow> batch" where
  "bump_splay tmpl b = (if Splay tmpl > splay b then b\<lparr> splay := Splay tmpl \<rparr> else b)"

text \<open>The inner loop over the templates of one id; a no-op template skips the splay update.\<close>

fun classify :: "template list \<Rightarrow> batch \<Rightarrow> batch" where
  "classify [] b = b"
| "classify (tmpl # tmpls) b =
     (if ChangeMode tmpl = TemplateChangeModeSignal
      then classify tmpls
             (bump_splay tmpl (b\<lparr> signal_set := List.insert (ChangeSignal tmpl) (signal_set b) \<rparr>))
      else if ChangeMode tmpl = TemplateChangeModeRestart
      then classify tmpls (bump_splay tmpl (b\<lparr> restart := True \<rparr>))
      else if ChangeMode tmpl = TemplateChangeModeScript
      then classify tmpls (bump_splay tmpl (b\<lparr> scripts := scripts b @ [ChangeScript tmpl] \<rparr>))
      else if ChangeMode tmpl = TemplateChangeModeNoop
      then classify tmpls b
      else classify tmpls (bump_splay tmpl b))"

text \<open>\<open>handledRenders[id]\<close>: a missing key reads as the zero instant.\<close>

definition hget :: "(string \<rightharpoonup> time) \<Rightarrow> string \<Rightarrow> time" where
  "hget h k = (case h k of None \<Rightarrow> 0 | Some t \<Rightarrow> t)"

text \<open>The event \<open>NewTaskEvent(TaskKilling).SetFailsTask().SetDisplayMessage(msg)\<close>.\<close>

definition kill_event :: "string \<Rightarrow> task_event" where
  "kill_event msg = SetDisplayMessage msg (SetFailsTask (NewTaskEvent TaskKilling))"

text \<open>
  The scan of \<open>onTemplateRendered\<close> over the event map, in the order the map is iterated
  (the list). The result is the updated \<open>handledRenders\<close>, the effects, and the aggregates,
  or \<open>None\<close> when the scan returned early.
\<close>

fun scan ::
  "manager \<Rightarrow> world \<Rightarrow> time \<Rightarrow> (string \<times> render_event) list \<Rightarrow> (string \<rightharpoonup> time) \<Rightarrow> batch \<Rightarrow>
   (string \<rightharpoonup> time) \<times> effect list \<times> batch option" where
  "scan tm w allRenderedTime [] h b = (h, [], Some b)"
| "scan tm w allRenderedTime ((tid, event) # events) h b =
     (if LastDidRender event \<le> allRenderedTime
      then scan tm w allRenderedTime events (h(tid \<mapsto> allRenderedTime)) b
      else if LastDidRender event \<le> hget h tid
      then scan tm w allRenderedTime events h b
      else case map_of (lookup tm) tid of
             None \<Rightarrow>
               (h, [Kill (kill_event (''Template runner returned unknown template id ''
                                      @ quoted tid))], None)
           | Some tmpls \<Rightarrow>
               (case loadTemplateEnv (Templates (config tm)) (taskEnv_at w tid) (files_at w tid) of
                  Inl err \<Rightarrow>
                    (h, [Kill (kill_event (''Template failed to read environment variables: ''
                                           @ err))], None)
                | Inr envMap \<Rightarrow>
                    (case scan tm w allRenderedTime events h
                            ((classify tmpls b)\<lparr> handling := handling (classify tmpls b) @ [tid] \<rparr>)
                     of (h', effs, r) \<Rightarrow> (h', SetTemplateEnv envMap # effs, r))))"

text \<open>
  The commit \<open>handledRenders[id] = events[id].LastDidRender\<close> for the ids in \<open>handling\<close>.
  Those ids come from \<open>events\<close>, so the lookup always succeeds.
\<close>

fun commit ::
  "(string \<times> render_event) list \<Rightarrow> string list \<Rightarrow> (string \<rightharpoonup> time) \<Rightarrow> (string \<rightharpoonup> time)" where
  "commit events [] h = h"
| "commit events (tid # ids) h =
     commit events ids
       (case map_of events tid of Some event \<Rightarrow> h(tid \<mapsto> LastDidRender event) | None \<Rightarrow> h)"

text \<open>
  The signals are sent in the order of the list; the source iterates a map. A signal name
  with no entry in \<open>tm.signals\<close> gives the event the signal \<open>None\<close>; what \<open>SetTaskSignal\<close> of
  the job structures does with a nil signal is outside the sources. The constructor enters
  every non-empty \<open>ChangeSignal\<close> in the table, so only a template of mode \<open>signal\<close> with an
  empty \<open>ChangeSignal\<close> reaches that case.
\<close>

definition handleChangeModeSignal :: "manager \<Rightarrow> world \<Rightarrow> string list \<Rightarrow> effect list" where
  "handleChangeModeSignal tm w sigs =
     map (\<lambda>signal.
            Signal (SetDisplayMessage ''Template re-rendered''
                      (SetTaskSignal (signals tm signal) (NewTaskEvent TaskSignaling))) signal) sigs
     @ (let errs = List.map_filter (Lifecycle_Signal w) sigs
        in if errs \<noteq> []
           then [Kill (kill_event (''Template failed to send signals ''
                                   @ Sprint_signals w (map (signals tm) sigs) @ '': ''
                                   @ multierror_Error w errs))]
           else [])"

definition handleScriptError :: "change_script \<Rightarrow> string \<Rightarrow> effect list" where
  "handleScriptError script msg =
     EmitEvent (SetDisplayMessage msg (NewTaskEvent TaskHookFailed))
     # (if FailOnError script
        then [Kill (kill_event ''Template script failed, task is being killed'')]
        else [])"

definition processScript :: "world \<Rightarrow> change_script \<Rightarrow> effect list" where
  "processScript w script =
     Exec (Timeout script) (Command script) (Args script)
     # (case Lifecycle_Exec w script of
          (exitCode, Some err) \<Rightarrow>
            handleScriptError script
              (''Template failed to run script '' @ Command script @ '' with arguments ''
               @ Sprint_strings (Args script) @ '' on change: '' @ err @ ''. Exit code: ''
               @ itoa exitCode)
        | (exitCode, None) \<Rightarrow>
            if exitCode \<noteq> 0
            then handleScriptError script
                   (''Template ran script '' @ Command script @ '' with arguments ''
                    @ Sprint_strings (Args script) @ '' on change but it exited with code: ''
                    @ itoa exitCode)
            else [EmitEvent (SetDisplayMessage
                               (''Template successfully ran script '' @ Command script
                                @ '' with arguments: '' @ Sprint_strings (Args script)
                                @ ''. Exit code: 0'')
                               (NewTaskEvent TaskHookMessage))])"

text \<open>
  The scripts of a batch run concurrently and are joined; the effects are listed for the
  schedule that runs them one after the other.
\<close>

definition handleChangeModeScript :: "world \<Rightarrow> change_script list \<Rightarrow> effect list" where
  "handleChangeModeScript w scs = concat (map (processScript w) scs)"

definition restart_event :: task_event where
  "restart_event =
     SetDisplayMessage ''Template with change_mode restart re-rendered''
       (NewTaskEvent TaskRestartSignal)"

definition shouldHandle :: "batch \<Rightarrow> bool" where
  "shouldHandle b = (restart b \<or> signal_set b \<noteq> [] \<or> scripts b \<noteq> [])"

text \<open>
  \<open>onTemplateRendered\<close>: the map \<open>handledRenders\<close> is mutated in place, so the updated map is
  returned on every path. The select on the splay timer and the shutdown channel is the
  effect \<open>Sleep\<close>, and \<open>shutdown_during_sleep\<close> tells which of the two is taken. The splay is
  never negative, hence \<open>Int63n\<close> gets a positive bound.
\<close>

definition onTemplateRendered ::
  "manager \<Rightarrow> world \<Rightarrow> (string \<rightharpoonup> time) \<Rightarrow> time \<Rightarrow> (string \<times> render_event) list \<Rightarrow>
   (string \<rightharpoonup> time) \<times> effect list" where
  "onTemplateRendered tm w handledRenders allRenderedTime events =
     (case scan tm w allRenderedTime events handledRenders empty_batch of
        (h, effs, None) \<Rightarrow> (h, effs)
      | (h, effs, Some b) \<Rightarrow>
          if \<not> shouldHandle b then (h, effs)
          else if splay b \<noteq> 0 \<and> shutdown_during_sleep w
          then (h, effs @ [Sleep (Int63n w (splay b))])
          else (commit events (handling b) h,
                effs
                @ (if splay b \<noteq> 0 then [Sleep (Int63n w (splay b))] else [])
                @ (if restart b then [Restart restart_event False]
                   else handleChangeModeSignal tm w (signal_set b)
                        @ handleChangeModeScript w (scripts b))))"

section \<open>The first-render gate and the steady-state loop\<close>

text \<open>
  A loop over a select is a function of the list of cases the select takes, in order. When
  the list is used up the loop is blocked in its select (\<open>Waiting\<close>, with the loop state).
\<close>

datatype 's loop_status = Returned | Waiting 's

definition prepend :: "effect list \<Rightarrow> effect list \<times> 'a \<Rightarrow> effect list \<times> 'a" where
  "prepend effs r = (effs @ fst r, snd r)"

text \<open>
  The local state of \<open>handleFirstRender\<close>. The set of missing dependencies
  (\<open>map[string]struct{}\<close>) is a set, nil before its first assignment.
\<close>

record gate =
  missingDependencies :: "string set option"
  dirtyEvents :: "(string \<times> render_event) list"
  outstandingEvent :: bool

text \<open>
  The cases of the select of the gate. A receive from the error channel carries the error,
  or nothing when the channel is closed; the two render cases carry what
  \<open>runner.RenderEvents()\<close> returns at that moment.
\<close>

datatype gate_case =
    FR_shutdownCh
  | FR_ErrCh "string option"
  | FR_TemplateRenderedCh "(string \<times> render_event) list" world
  | FR_RenderEventCh "(string \<times> render_event) list"
  | FR_eventTimer

text \<open>
  The loop over the events at a template-rendered case: it stops at the first event that
  would not render yet (\<open>continue WAIT\<close>, result \<open>False\<close>) and records the events that did
  render in \<open>dirtyEvents\<close>.
\<close>

fun mark_dirty ::
  "(string \<times> render_event) list \<Rightarrow> (string \<times> render_event) list \<Rightarrow>
   (string \<times> render_event) list \<times> bool" where
  "mark_dirty [] dirty = (dirty, True)"
| "mark_dirty ((tid, event) # events) dirty =
     (if LastWouldRender event = 0 then (dirty, False)
      else mark_dirty events
             (if LastDidRender event \<noteq> 0 then AList.update (TemplateID event) event dirty
              else dirty))"

text \<open>The union of the missing dependencies of all events.\<close>

fun joined_set :: "(string \<times> render_event) list \<Rightarrow> string set \<Rightarrow> string set" where
  "joined_set [] joinedSet = joinedSet"
| "joined_set ((tid, event) # events) joinedSet =
     (case MissingDeps event of
        None \<Rightarrow> joined_set events joinedSet
      | Some missing \<Rightarrow> joined_set events (joinedSet \<union> set missing))"

text \<open>
  The display message of the timer case: the keys sorted by \<open>sort.Strings\<close>, cut to
  \<open>missingDepEventLimit\<close> names and a count when there are more, joined by \<open>strings.Join\<close>.
\<close>

definition missing_message :: "string set \<Rightarrow> string" where
  "missing_message missing =
     (let missingSlice = sorted_list_of_set missing;
          l = length missingSlice;
          missingSlice =
            (if l > missingDepEventLimit
             then take missingDepEventLimit missingSlice
                  @ [''and '' @ itoa (int l - int missingDepEventLimit) @ '' more'']
             else missingSlice)
      in ''Missing: '' @ Join missingSlice '', '')"

text \<open>
  \<open>handleFirstRender\<close>. The timer itself is not part of the state: arming it is the effect
  \<open>TimerReset\<close>, its firing the case \<open>FR_eventTimer\<close>. The render events that the engine
  reports at a case, and what the dispatcher meets if it is invoked, come with the case.
\<close>

fun handleFirstRender_loop ::
  "manager \<Rightarrow> gate \<Rightarrow> gate_case list \<Rightarrow> effect list \<times> gate loop_status" where
  "handleFirstRender_loop tm st [] = ([], Waiting st)"
| "handleFirstRender_loop tm st (FR_shutdownCh # cases) = ([], Returned)"
| "handleFirstRender_loop tm st (FR_ErrCh None # cases) = handleFirstRender_loop tm st cases"
| "handleFirstRender_loop tm st (FR_ErrCh (Some err) # cases) =
     prepend [Kill (kill_event (''Template failed: '' @ err))]
       (handleFirstRender_loop tm st cases)"
| "handleFirstRender_loop tm st (FR_TemplateRenderedCh events w # cases) =
     (if length events < length (lookup tm) then handleFirstRender_loop tm st cases
      else case mark_dirty events (dirtyEvents st) of
             (dirty, False) \<Rightarrow> handleFirstRender_loop tm (st\<lparr> dirtyEvents := dirty \<rparr>) cases
           | (dirty, True) \<Rightarrow>
               (if dirty \<noteq> [] \<and> Lifecycle_IsRunning w
                then snd (onTemplateRendered tm w Map.empty 0 dirty)
                else [],
                Returned))"
| "handleFirstRender_loop tm st (FR_RenderEventCh events # cases) =
     (let joinedSet = joined_set events {};
          different =
            (card joinedSet \<noteq> (case missingDependencies st of None \<Rightarrow> 0 | Some m \<Rightarrow> card m)
             \<or> (\<exists>k \<in> joinedSet. case missingDependencies st of None \<Rightarrow> True | Some m \<Rightarrow> k \<notin> m))
      in if \<not> different then handleFirstRender_loop tm st cases
         else if \<not> outstandingEvent st
         then prepend [TimerReset (MaxTemplateEventRate (config tm))]
                (handleFirstRender_loop tm
                   (st\<lparr> missingDependencies := Some joinedSet, outstandingEvent := True \<rparr>) cases)
         else handleFirstRender_loop tm (st\<lparr> missingDependencies := Some joinedSet \<rparr>) cases)"
| "handleFirstRender_loop tm st (FR_eventTimer # cases) =
     (case missingDependencies st of
        None \<Rightarrow> handleFirstRender_loop tm st cases
      | Some missing \<Rightarrow>
          prepend [EmitEvent (SetDisplayMessage (missing_message missing)
                                (NewTaskEvent (EventType consulTemplateSourceName)))]
            (handleFirstRender_loop tm (st\<lparr> outstandingEvent := False \<rparr>) cases))"

definition handleFirstRender :: "manager \<Rightarrow> gate_case list \<Rightarrow> effect list \<times> gate loop_status" where
  "handleFirstRender tm cases =
     handleFirstRender_loop tm
       \<lparr> missingDependencies = None, dirtyEvents = [], outstandingEvent = False \<rparr> cases"

text \<open>\<open>handleTemplateRerenders\<close>, with the cases of its select.\<close>

datatype rerender_case =
    RR_shutdownCh
  | RR_DoneCh
  | RR_ErrCh "string option"
  | RR_TemplateRenderedCh "(string \<times> render_event) list" world

fun handleTemplateRerenders_loop ::
  "manager \<Rightarrow> time \<Rightarrow> (string \<rightharpoonup> time) \<Rightarrow> rerender_case list \<Rightarrow>
   effect list \<times> (string \<rightharpoonup> time) loop_status" where
  "handleTemplateRerenders_loop tm allRenderedTime h [] = ([], Waiting h)"
| "handleTemplateRerenders_loop tm allRenderedTime h (RR_shutdownCh # cases) = ([], Returned)"
| "handleTemplateRerenders_loop tm allRenderedTime h (RR_DoneCh # cases) = ([], Returned)"
| "handleTemplateRerenders_loop tm allRenderedTime h (RR_ErrCh None # cases) =
     handleTemplateRerenders_loop tm allRenderedTime h cases"
| "handleTemplateRerenders_loop tm allRenderedTime h (RR_ErrCh (Some err) # cases) =
     prepend [Kill (kill_event (''Template failed: '' @ err))]
       (handleTemplateRerenders_loop tm allRenderedTime h cases)"
| "handleTemplateRerenders_loop tm allRenderedTime h (RR_TemplateRenderedCh events w # cases) =
     (case onTemplateRendered tm w h allRenderedTime events of
        (h', effs) \<Rightarrow> prepend effs (handleTemplateRerenders_loop tm allRenderedTime h' cases))"

definition handleTemplateRerenders ::
  "manager \<Rightarrow> time \<Rightarrow> rerender_case list \<Rightarrow> effect list \<times> (string \<rightharpoonup> time) loop_status" where
  "handleTemplateRerenders tm allRenderedTime cases =
     handleTemplateRerenders_loop tm allRenderedTime Map.empty cases"

section \<open>Stop\<close>

text \<open>
  \<open>Stop\<close> under its mutex: one call is one step. Closing a channel that is already closed
  panics.
\<close>

definition Stop :: "manager \<Rightarrow> effect list \<times> manager" where
  "Stop tm =
     (if shutdown tm then ([], tm)
      else if shutdownCh tm = Closed then ([panic ''close of closed channel''], tm)
      else (close_shutdownCh # (if runner tm \<noteq> None then [runner_Stop] else []),
            tm\<lparr> shutdownCh := Closed, shutdown := True \<rparr>))"

fun Stop_times :: "nat \<Rightarrow> manager \<Rightarrow> effect list \<times> manager" where
  "Stop_times 0 tm = ([], tm)"
| "Stop_times (Suc n) tm = (case Stop tm of (effs, tm') \<Rightarrow> prepend effs (Stop_times n tm'))"

section \<open>Predicates used in the statements\<close>

text \<open>
  A path escapes when the task environment says so; the translator asks only for a
  non-empty path.
\<close>

definition escapes_source :: "externals \<Rightarrow> template \<Rightarrow> bool" where
  "escapes_source ext t = (SourcePath t \<noteq> [] \<and> snd (ClientPath ext (SourcePath t) False))"

definition escapes_dest :: "externals \<Rightarrow> template \<Rightarrow> bool" where
  "escapes_dest ext t = (DestPath t \<noteq> [] \<and> snd (ClientPath ext (DestPath t) True))"

text \<open>
  An event is fresh (not stale) for \<open>onTemplateRendered\<close> when it was rendered after
  \<open>allRenderedTime\<close> and after the instant \<open>handledRenders\<close> holds for its id.
\<close>

definition fresh :: "time \<Rightarrow> (string \<rightharpoonup> time) \<Rightarrow> string \<times> render_event \<Rightarrow> bool" where
  "fresh allRenderedTime h p =
     (allRenderedTime < LastDidRender (snd p) \<and> hget h (fst p) < LastDidRender (snd p))"

text \<open>
  The change actions are the calls \<open>Restart\<close>, \<open>Signal\<close> and \<open>Exec\<close>; the lifecycle calls are
  these and \<open>Kill\<close>. \<open>sleeps\<close> lists the durations of the splay sleeps of a run.
\<close>

fun change_action :: "effect \<Rightarrow> bool" where
  "change_action (Restart ev f) = True"
| "change_action (Signal ev s) = True"
| "change_action (Exec t c args) = True"
| "change_action e = False"

fun lifecycle_call :: "effect \<Rightarrow> bool" where
  "lifecycle_call (Kill ev) = True"
| "lifecycle_call e = change_action e"

fun sleeps :: "effect list \<Rightarrow> duration list" where
  "sleeps [] = []"
| "sleeps (Sleep d # effs) = d # sleeps effs"
| "sleeps (e # effs) = sleeps effs"

text \<open>
  The templates of the fresh events of a batch, and the largest splay among a list of
  templates, starting from a given value.
\<close>

definition actionable :: "template \<Rightarrow> bool" where
  "actionable t = (ChangeMode t \<noteq> TemplateChangeModeNoop)"

definition templates_of :: "manager \<Rightarrow> string \<Rightarrow> template list" where
  "templates_of tm tid = (case map_of (lookup tm) tid of None \<Rightarrow> [] | Some tmpls \<Rightarrow> tmpls)"


definition max_splay :: "template list \<Rightarrow> duration \<Rightarrow> duration" where
  "max_splay tmpls s = fold (\<lambda>t m. max (Splay t) m) tmpls s"


text \<open>
  The aggregates that the scan reaches when nothing stops it: the fold of the loop body
  over the fresh events. \<open>scan_unhindered\<close> says that nothing stops it: every fresh event has
  a known id and its env harvest succeeds.
\<close>

fun pending_batch ::
  "manager \<Rightarrow> time \<Rightarrow> (string \<rightharpoonup> time) \<Rightarrow> (string \<times> render_event) list \<Rightarrow> batch \<Rightarrow> batch" where
  "pending_batch tm a h [] b = b"
| "pending_batch tm a h (p # evs) b =
     (if fresh a h p
      then pending_batch tm a h evs
             ((classify (templates_of tm (fst p)) b)
                \<lparr> handling := handling (classify (templates_of tm (fst p)) b) @ [fst p] \<rparr>)
      else pending_batch tm a h evs b)"

definition scan_unhindered ::
  "manager \<Rightarrow> world \<Rightarrow> time \<Rightarrow> (string \<rightharpoonup> time) \<Rightarrow> (string \<times> render_event) list \<Rightarrow> bool" where
  "scan_unhindered tm w a h events =
     (\<forall>p \<in> set events.
        fresh a h p \<longrightarrow>
          map_of (lookup tm) (fst p) \<noteq> None
          \<and> \<not> isl (loadTemplateEnv (Templates (config tm)) (taskEnv_at w (fst p))
                     (files_at w (fst p))))"

text \<open>The event of the \<open>Kill\<close> that answers an engine error.\<close>

definition failed_event :: "string \<Rightarrow> task_event" where
  "failed_event err =
     \<lparr> Type = TaskKilling, FailsTask = True, DisplayMessage = ''Template failed: '' @ err,
       TaskSignal = None \<rparr>"

text \<open>
  The cases at which the gate leaves its loop: the shutdown channel (\<open>return\<close>), and a
  template-rendered case in which the engine reports at least as many events as there are
  templates and every event would render (\<open>break WAIT\<close>).
\<close>

definition all_rendered :: "manager \<Rightarrow> gate_case \<Rightarrow> bool" where
  "all_rendered tm c =
     (case c of
        FR_TemplateRenderedCh events w \<Rightarrow>
          \<not> length events < length (lookup tm)
          \<and> list_all (\<lambda>(tid, event). LastWouldRender event \<noteq> 0) events
      | _ \<Rightarrow> False)"

definition gate_exit :: "manager \<Rightarrow> gate_case \<Rightarrow> bool" where
  "gate_exit tm c = (c = FR_shutdownCh \<or> all_rendered tm c)"

text \<open>The receives from the engine's error channel, in each loop.\<close>

fun is_FR_ErrCh :: "gate_case \<Rightarrow> bool" where
  "is_FR_ErrCh (FR_ErrCh x) = True"
| "is_FR_ErrCh c = False"

fun is_RR_ErrCh :: "rerender_case \<Rightarrow> bool" where
  "is_RR_ErrCh (RR_ErrCh x) = True"
| "is_RR_ErrCh c = False"

section \<open>Example inputs\<close>

text \<open>
  A task with one template that restarts on change, a task environment that makes paths
  starting with \<open>../\<close> escape, and an engine that accepts every configuration.
\<close>

definition ex_script :: change_script where
  "ex_script = \<lparr> Command = ''/bin/reload'', Args = [''-q''], Timeout = 5, FailOnError = True \<rparr>"

definition ex_template :: template where
  "ex_template =
     \<lparr> SourcePath = [], DestPath = ''local/app.conf'', EmbeddedTmpl = ''body'',
       ChangeMode = TemplateChangeModeRestart, ChangeSignal = [], ChangeScript = ex_script,
       Splay = 0, Perms = ''0644'', Uid = None, Gid = None, LeftDelim = ''{{'',
       RightDelim = ''}}'', ErrMissingKey = False, Envvars = False, Wait = None, Once = False \<rparr>"

definition ex_noop_template :: template where
  "ex_noop_template =
     ex_template\<lparr> DestPath := ''local/noop.conf'', ChangeMode := TemplateChangeModeNoop,
                   Splay := 10 \<rparr>"

definition ex_signal_template :: template where
  "ex_signal_template =
     ex_template\<lparr> DestPath := ''local/sig.conf'', ChangeMode := TemplateChangeModeSignal,
                   ChangeSignal := ''SIGHUP'' \<rparr>"

definition ex_externals :: externals where
  "ex_externals =
     \<lparr> signals_Parse = (\<lambda>s. if s = ''SIGHUP'' then Some 1 else None),
       ClientPath = (\<lambda>p mustWrite. (''/alloc/web/'' @ p, take 3 p = ''../'')),
       All_env = [''FOO'' \<mapsto> ''task''],
       os_Environ = [''FOO=host'', ''PATH=/bin'', ''NOEQ''],
       newRunnerConfig = (\<lambda>cfg cts. None),
       manager_NewRunner = (\<lambda>cfg cts. None),
       TemplateConfigMapping = (\<lambda>cts. map (\<lambda>(ct, t). (ct_Destination ct, [t])) cts) \<rparr>"

definition ex_config :: "template list \<Rightarrow> config" where
  "ex_config tmpls =
     \<lparr> UnblockCh = Some (), Lifecycle = Some (), Events = Some (), Templates = tmpls,
       ClientConfig = Some \<lparr> TemplateConfig =
                               Some \<lparr> DisableSandbox = False, FunctionDenylist = [] \<rparr> \<rparr>,
       TaskDir = ''/alloc/web'', EnvBuilder = Some (), MaxTemplateEventRate = 3000000000 \<rparr>"

definition ex_runner :: runner where
  "ex_runner = \<lparr> Env = maskProcessEnv (os_Environ ex_externals) (All_env ex_externals) \<rparr>"

definition ex_manager :: "template list \<Rightarrow> manager" where
  "ex_manager tmpls =
     \<lparr> config = ex_config tmpls,
       lookup = map (\<lambda>t. (''/alloc/web/'' @ DestPath t, [t])) tmpls,
       runner = (if tmpls = [] then None else Some ex_runner),
       signals = Map.empty, shutdownCh = Open, shutdown = False \<rparr>"

text \<open>
  A world in which every env harvest succeeds with no variables, every call succeeds, the
  random source returns the largest value of its range, and no shutdown happens; managers
  with a given lookup table, and batches of render events.
\<close>

definition ex_world :: world where
  "ex_world =
     \<lparr> taskEnv_at = (\<lambda>tid p mustWrite. (''/alloc/web/'' @ p, False)),
       files_at = (\<lambda>tid p. Vars Map.empty),
       Int63n = (\<lambda>n. n - 1),
       shutdown_during_sleep = False,
       Lifecycle_Signal = (\<lambda>s. None),
       Lifecycle_Exec = (\<lambda>sc. (0, None)),
       Lifecycle_IsRunning = True,
       Sprint_signals = (\<lambda>sigs. ''[]''),
       multierror_Error = (\<lambda>errs. Join errs ''; '') \<rparr>"

definition ex_event :: "string \<Rightarrow> time \<Rightarrow> render_event" where
  "ex_event tid t =
     \<lparr> TemplateID = tid, LastWouldRender = t, LastDidRender = t, MissingDeps = None \<rparr>"

definition ex_dispatcher :: "(string \<times> template list) list \<Rightarrow> manager" where
  "ex_dispatcher lk =
     \<lparr> config = ex_config (concat (map snd lk)), lookup = lk, runner = Some ex_runner,
       signals = [''SIGHUP'' \<mapsto> 1], shutdownCh = Open, shutdown = False \<rparr>"

definition ex_restart_and_signal :: manager where
  "ex_restart_and_signal = ex_dispatcher [(''a'', [ex_template]), (''b'', [ex_signal_template])]"

definition ex_splayed :: manager where
  "ex_splayed =
     ex_dispatcher [(''n'', [ex_noop_template]), (''a'', [ex_template\<lparr> Splay := 4 \<rparr>])]"

definition ex_noop_splayed :: manager where
  "ex_noop_splayed = ex_dispatcher [(''n'', [ex_noop_template]), (''a'', [ex_template])]"

definition ex_batch :: "(string \<times> render_event) list" where
  "ex_batch = [(''b'', ex_event ''b'' 10), (''a'', ex_event ''a'' 10)]"

definition ex_batch_with_old :: "(string \<times> render_event) list" where
  "ex_batch_with_old =
     [(''old'', ex_event ''old'' 3), (''n'', ex_event ''n'' 10), (''a'', ex_event ''a'' 10)]"

definition ex_unknown_batch :: "(string \<times> render_event) list" where
  "ex_unknown_batch = [(''ghost'', ex_event ''ghost'' 10)]"

text \<open>A gate state with five missing dependencies and an outstanding event.\<close>

definition ex_gate :: gate where
  "ex_gate =
     \<lparr> missingDependencies = Some {''e'', ''b'', ''a'', ''d'', ''c''}, dirtyEvents = [],
       outstandingEvent = True \<rparr>"

section \<open>Construction: properties\<close>

subsection \<open>The example constructions\<close>

lemma ex_construct:
  "NewTaskTemplateManager ex_externals (Some (ex_config [ex_template])) = Inr (ex_manager [ex_template])"
  by (simp add: NewTaskTemplateManager_def Validate_def ex_config_def ex_template_def
        templateRunner_def parseTemplateConfigs_def parseTemplateConfig_def ex_externals_def
        ParseUint_8_12_def ex_manager_def ex_runner_def)

lemma ex_construct_empty:
  "NewTaskTemplateManager ex_externals (Some (ex_config [])) = Inr (ex_manager [])"
  by (simp add: NewTaskTemplateManager_def Validate_def ex_config_def
        templateRunner_def ex_manager_def)

subsection \<open>Environment masking\<close>

lemma maskProcessEnv_keep: "env k = Some v \<Longrightarrow> maskProcessEnv procEnvs env k = Some v"
proof (induction procEnvs arbitrary: env)
  case Nil
  then show ?case by simp
next
  case (Cons e procEnvs)
  have "(if env (SplitN2 e CHR ''='' ! 0) = None then env(SplitN2 e CHR ''='' ! 0 \<mapsto> []) else env) k
          = Some v"
    using Cons.prems by auto
  then show ?case by (simp add: Let_def Cons.IH)
qed

lemma maskProcessEnv_other:
  "env k = None \<Longrightarrow>
   maskProcessEnv procEnvs env k =
     (if k \<in> (\<lambda>e. SplitN2 e CHR ''='' ! 0) ` set procEnvs then Some [] else None)"
proof (induction procEnvs arbitrary: env)
  case Nil
  then show ?case by simp
next
  case (Cons e procEnvs)
  show ?case
  proof (cases "k = SplitN2 e CHR ''='' ! 0")
    case True
    then show ?thesis using Cons.prems by (simp add: Let_def maskProcessEnv_keep)
  next
    case False
    then show ?thesis using Cons.prems Cons.IH by (auto simp: Let_def)
  qed
qed

lemma templateRunner_Env:
  "templateRunner ext cfg = Inr (Some r, lk) \<Longrightarrow>
   Env r = maskProcessEnv (os_Environ ext) (All_env ext)"
  by (auto simp: templateRunner_def split: if_splits sum.splits option.splits)

lemma NewTaskTemplateManager_Env:
  "NewTaskTemplateManager ext c = Inr tm \<Longrightarrow> runner tm = Some r \<Longrightarrow>
   Env r = maskProcessEnv (os_Environ ext) (All_env ext)"
  by (auto simp: NewTaskTemplateManager_def split: option.splits sum.splits
           dest: templateRunner_Env)

text \<open>
  Claim C2. For every task environment and every process environment, the masked map gives
  every variable of the task its task value, gives the empty string to every variable of
  the process environment that the task does not define, and for a key the task does not
  declare holds the empty string or nothing (when the process does not have it either):
  never a value of the process. When construction succeeds with an engine, this masked map
  is the environment handed to the engine (\<open>runner.Env\<close>).
\<close>

theorem env_masking:
  "(\<forall>k v. taskEnv k = Some v \<longrightarrow> maskProcessEnv procEnvs taskEnv k = Some v)
   \<and> (\<forall>e \<in> set procEnvs.
        taskEnv (SplitN2 e CHR ''='' ! 0) = None \<longrightarrow>
        maskProcessEnv procEnvs taskEnv (SplitN2 e CHR ''='' ! 0) = Some [])
   \<and> (\<forall>k. taskEnv k = None \<longrightarrow>
          maskProcessEnv procEnvs taskEnv k
            = (if k \<in> (\<lambda>e. SplitN2 e CHR ''='' ! 0) ` set procEnvs then Some [] else None))
   \<and> (NewTaskTemplateManager ext c = Inr tm \<and> runner tm = Some r \<longrightarrow>
          Env r = maskProcessEnv (os_Environ ext) (All_env ext))"
  using NewTaskTemplateManager_Env [of ext c tm r]
  by (auto simp: maskProcessEnv_keep maskProcessEnv_other)

text \<open>
  The theorem at the example: the task defines \<open>FOO\<close>, the process has \<open>FOO\<close>, \<open>PATH\<close> and an
  entry without a separator.
\<close>

theorem env_masking_witness:
  "NewTaskTemplateManager ex_externals (Some (ex_config [ex_template])) = Inr (ex_manager [ex_template])
   \<and> runner (ex_manager [ex_template]) = Some ex_runner
   \<and> All_env ex_externals ''FOO'' = Some ''task''
   \<and> Env ex_runner ''FOO'' = Some ''task''
   \<and> Env ex_runner ''PATH'' = Some []
   \<and> Env ex_runner ''NOEQ'' = Some []
   \<and> Env ex_runner ''HOME'' = None"
proof -
  have r: "runner (ex_manager [ex_template]) = Some ex_runner"
    by (simp add: ex_manager_def)
  have E: "Env ex_runner = maskProcessEnv (os_Environ ex_externals) (All_env ex_externals)"
    using env_masking [of _ _ ex_externals "Some (ex_config [ex_template])"
                          "ex_manager [ex_template]" ex_runner] ex_construct r
    by blast
  show ?thesis
    unfolding E
    using env_masking [of "All_env ex_externals" "os_Environ ex_externals"] ex_construct r
    by (simp add: ex_externals_def SplitN2_def)
qed

subsection \<open>The signal table\<close>

lemma parse_signals_fail:
  "t \<in> set tmpls \<Longrightarrow> ChangeSignal t \<noteq> [] \<Longrightarrow> parse (ChangeSignal t) = None \<Longrightarrow>
   \<exists>u \<in> set tmpls. ChangeSignal u \<noteq> [] \<and> parse (ChangeSignal u) = None
      \<and> parse_signals parse tmpls tbl = Inl (FailedToParseSignal (ChangeSignal u))"
proof (induction tmpls arbitrary: tbl)
  case Nil
  then show ?case by simp
next
  case (Cons a tmpls)
  show ?case
  proof (cases "ChangeSignal a = []")
    case True
    then have "t \<in> set tmpls" using Cons.prems by auto
    from Cons.IH [OF this Cons.prems(2,3)] True show ?thesis by auto
  next
    case False
    show ?thesis
    proof (cases "parse (ChangeSignal a)")
      case None
      then show ?thesis using False by auto
    next
      case (Some sig)
      then have "t \<in> set tmpls" using Cons.prems by auto
      from Cons.IH [OF this Cons.prems(2,3)] False Some show ?thesis by auto
    qed
  qed
qed

lemma parse_signals_dom:
  "parse_signals parse tmpls tbl = Inr tbl' \<Longrightarrow>
   dom tbl' = dom tbl \<union> {ChangeSignal t | t. t \<in> set tmpls \<and> ChangeSignal t \<noteq> []}"
proof (induction tmpls arbitrary: tbl)
  case Nil
  then show ?case by simp
next
  case (Cons a tmpls)
  show ?case
  proof (cases "ChangeSignal a = []")
    case True
    with Cons show ?thesis by auto
  next
    case False
    then obtain sig where sig: "parse (ChangeSignal a) = Some sig"
      using Cons.prems by (auto split: option.splits)
    then have "parse_signals parse tmpls (tbl(ChangeSignal a \<mapsto> sig)) = Inr tbl'"
      using Cons.prems False by simp
    then have 0: "dom tbl' = dom (tbl(ChangeSignal a \<mapsto> sig))
                \<union> {ChangeSignal t | t. t \<in> set tmpls \<and> ChangeSignal t \<noteq> []}"
      by (rule Cons.IH)
    have 1: "dom tbl' = insert (ChangeSignal a) (dom tbl)
                \<union> {ChangeSignal t | t. t \<in> set tmpls \<and> ChangeSignal t \<noteq> []}"
      unfolding 0 by simp
    have 2: "{ChangeSignal t | t. t \<in> set (a # tmpls) \<and> ChangeSignal t \<noteq> []}
               = insert (ChangeSignal a) {ChangeSignal t | t. t \<in> set tmpls \<and> ChangeSignal t \<noteq> []}"
      using False by auto
    show ?thesis unfolding 1 2 by blast
  qed
qed

lemma parse_signals_skip:
  "ChangeSignal t = [] \<Longrightarrow>
   parse_signals parse (pre @ t # post) tbl = parse_signals parse (pre @ post) tbl"
  by (induction pre arbitrary: tbl) (auto split: option.splits)

lemma NewTaskTemplateManager_signals:
  "NewTaskTemplateManager ext (Some cfg) = Inr tm \<Longrightarrow>
   parse_signals (signals_Parse ext) (Templates cfg) Map.empty = Inr (signals tm)"
  by (auto simp: NewTaskTemplateManager_def split: option.splits sum.splits)

text \<open>
  Claim C9. For a configuration that passes \<open>Validate\<close>: a template with a non-empty
  \<open>ChangeSignal\<close> that does not parse makes construction fail with the parse error of the
  first such template, whatever its change mode; when construction succeeds the signal
  table has exactly the non-empty \<open>ChangeSignal\<close> strings as keys, so a template with an
  empty \<open>ChangeSignal\<close> has no entry, and the signal loop runs as if that template were not
  there, also when its change mode is \<open>signal\<close>.
\<close>

theorem signal_parsing_keyed_on_ChangeSignal:
  assumes "Validate (Some cfg) = None"
  shows "(t \<in> set (Templates cfg) \<and> ChangeSignal t \<noteq> [] \<and> signals_Parse ext (ChangeSignal t) = None
          \<longrightarrow> (\<exists>u \<in> set (Templates cfg).
                  ChangeSignal u \<noteq> [] \<and> signals_Parse ext (ChangeSignal u) = None
                  \<and> NewTaskTemplateManager ext (Some cfg)
                      = Inl (FailedToParseSignal (ChangeSignal u))))
       \<and> (NewTaskTemplateManager ext (Some cfg) = Inr tm
          \<longrightarrow> dom (signals tm) = {ChangeSignal u | u. u \<in> set (Templates cfg) \<and> ChangeSignal u \<noteq> []}
              \<and> (ChangeSignal t = [] \<longrightarrow> signals tm (ChangeSignal t) = None))
       \<and> (ChangeSignal t = []
          \<longrightarrow> parse_signals (signals_Parse ext) (pre @ t # post) tbl
              = parse_signals (signals_Parse ext) (pre @ post) tbl)"
proof (intro conjI impI)
  assume a: "t \<in> set (Templates cfg) \<and> ChangeSignal t \<noteq> [] \<and> signals_Parse ext (ChangeSignal t) = None"
  then obtain u where u: "u \<in> set (Templates cfg)" "ChangeSignal u \<noteq> []"
      "signals_Parse ext (ChangeSignal u) = None"
      "parse_signals (signals_Parse ext) (Templates cfg) Map.empty
         = Inl (FailedToParseSignal (ChangeSignal u))"
    using parse_signals_fail [of t "Templates cfg" "signals_Parse ext" Map.empty] by blast
  have "NewTaskTemplateManager ext (Some cfg) = Inl (FailedToParseSignal (ChangeSignal u))"
    using assms u(4) by (simp add: NewTaskTemplateManager_def)
  with u show "\<exists>u \<in> set (Templates cfg).
                  ChangeSignal u \<noteq> [] \<and> signals_Parse ext (ChangeSignal u) = None
                  \<and> NewTaskTemplateManager ext (Some cfg)
                      = Inl (FailedToParseSignal (ChangeSignal u))"
    by blast
next
  assume ok: "NewTaskTemplateManager ext (Some cfg) = Inr tm"
  show d: "dom (signals tm) = {ChangeSignal u | u. u \<in> set (Templates cfg) \<and> ChangeSignal u \<noteq> []}"
    using parse_signals_dom [OF NewTaskTemplateManager_signals [OF ok]] by simp
  assume "ChangeSignal t = []"
  then have "ChangeSignal t \<notin> dom (signals tm)" unfolding d by auto
  then show "signals tm (ChangeSignal t) = None" by auto
next
  assume "ChangeSignal t = []"
  then show "parse_signals (signals_Parse ext) (pre @ t # post) tbl
              = parse_signals (signals_Parse ext) (pre @ post) tbl"
    by (rule parse_signals_skip)
qed

text \<open>
  A no-op template with the change signal \<open>BOGUS\<close> fails construction; a template of
  change mode \<open>signal\<close> with an empty change signal is accepted and has no table entry.
\<close>

theorem signal_parsing_keyed_on_ChangeSignal_witness:
  "Validate (Some (ex_config [ex_template\<lparr> ChangeMode := TemplateChangeModeNoop,
                                              ChangeSignal := ''BOGUS'' \<rparr>])) = None
   \<and> NewTaskTemplateManager ex_externals
        (Some (ex_config [ex_template\<lparr> ChangeMode := TemplateChangeModeNoop,
                                        ChangeSignal := ''BOGUS'' \<rparr>]))
       = Inl (FailedToParseSignal ''BOGUS'')
   \<and> Validate (Some (ex_config [ex_template\<lparr> ChangeMode := TemplateChangeModeSignal \<rparr>])) = None
   \<and> NewTaskTemplateManager ex_externals
        (Some (ex_config [ex_template\<lparr> ChangeMode := TemplateChangeModeSignal \<rparr>]))
       = Inr (ex_manager [ex_template\<lparr> ChangeMode := TemplateChangeModeSignal \<rparr>])
   \<and> signals (ex_manager [ex_template\<lparr> ChangeMode := TemplateChangeModeSignal \<rparr>]) [] = None"
proof -
  let ?bad = "ex_template\<lparr> ChangeMode := TemplateChangeModeNoop, ChangeSignal := ''BOGUS'' \<rparr>"
  let ?sig = "ex_template\<lparr> ChangeMode := TemplateChangeModeSignal \<rparr>"
  have v1: "Validate (Some (ex_config [?bad])) = None"
    by (simp add: Validate_def ex_config_def)
  have v2: "Validate (Some (ex_config [?sig])) = None"
    by (simp add: Validate_def ex_config_def)
  have c2: "NewTaskTemplateManager ex_externals (Some (ex_config [?sig])) = Inr (ex_manager [?sig])"
    by (simp add: NewTaskTemplateManager_def Validate_def ex_config_def ex_template_def
          templateRunner_def parseTemplateConfigs_def parseTemplateConfig_def ex_externals_def
          ParseUint_8_12_def ex_manager_def ex_runner_def)
  show ?thesis
    using signal_parsing_keyed_on_ChangeSignal [OF v1, of ?bad ex_externals]
          signal_parsing_keyed_on_ChangeSignal [OF v2, of ?sig ex_externals "ex_manager [?sig]"]
          v1 v2 c2
    by (simp add: ex_config_def ex_externals_def ex_template_def)
qed

subsection \<open>Sandbox escapes\<close>

lemma parseTemplateConfig_escapes:
  "escapes_source ext t \<or> escapes_dest ext t \<Longrightarrow>
   parseTemplateConfig ext True cfg tc t
     = Inl (if escapes_source ext t then sourceEscapesErr else destEscapesErr)"
  by (auto simp: parseTemplateConfig_def escapes_source_def escapes_dest_def split: prod.splits)

lemma parseTemplateConfigs_loop_fails:
  "t \<in> set tmpls \<Longrightarrow> parseTemplateConfig ext sb cfg tc t = Inl e \<Longrightarrow>
   \<exists>e'. parseTemplateConfigs_loop ext sb cfg tc tmpls acc = Inl e'"
  by (induction tmpls arbitrary: acc) (auto split: sum.splits)

lemma parseTemplateConfigs_loop_first:
  "\<forall>u \<in> set pre. \<exists>ct. parseTemplateConfig ext sb cfg tc u = Inr ct \<Longrightarrow>
   parseTemplateConfig ext sb cfg tc t = Inl e \<Longrightarrow>
   parseTemplateConfigs_loop ext sb cfg tc (pre @ t # post) acc = Inl e"
  by (induction pre arbitrary: acc) (auto split: sum.splits)

lemma parseTemplateConfig_ClientPath:
  assumes "ClientPath ext' = ClientPath ext"
  shows "parseTemplateConfig ext' sb cfg tc t = parseTemplateConfig ext sb cfg tc t"
  unfolding parseTemplateConfig_def assms ..

lemma parseTemplateConfig_engine:
  "parseTemplateConfig (ext\<lparr> newRunnerConfig := g, manager_NewRunner := f \<rparr>) sb cfg tc t
     = parseTemplateConfig ext sb cfg tc t"
  by (rule parseTemplateConfig_ClientPath) simp

lemma parseTemplateConfigs_loop_engine:
  "parseTemplateConfigs_loop (ext\<lparr> newRunnerConfig := g, manager_NewRunner := f \<rparr>) sb cfg tc tmpls acc
     = parseTemplateConfigs_loop ext sb cfg tc tmpls acc"
  by (induction tmpls arbitrary: acc) (simp_all add: parseTemplateConfig_engine split: sum.splits)

lemma parseTemplateConfigs_loop_escape:
  "\<forall>u \<in> set tmpls. escapes_source ext u \<or> escapes_dest ext u
                     \<or> (\<exists>ct. parseTemplateConfig ext True cfg tc u = Inr ct) \<Longrightarrow>
   \<exists>u \<in> set tmpls. escapes_source ext u \<or> escapes_dest ext u \<Longrightarrow>
   parseTemplateConfigs_loop ext True cfg tc tmpls acc = Inl sourceEscapesErr
   \<or> parseTemplateConfigs_loop ext True cfg tc tmpls acc = Inl destEscapesErr"
proof (induction tmpls arbitrary: acc)
  case Nil
  then show ?case by simp
next
  case (Cons a tmpls)
  show ?case
  proof (cases "escapes_source ext a \<or> escapes_dest ext a")
    case True
    from parseTemplateConfig_escapes [OF True, of cfg tc] show ?thesis by auto
  next
    case False
    with Cons.prems obtain ct where ct: "parseTemplateConfig ext True cfg tc a = Inr ct"
      and rest: "\<forall>u \<in> set tmpls. escapes_source ext u \<or> escapes_dest ext u
                     \<or> (\<exists>ct. parseTemplateConfig ext True cfg tc u = Inr ct)"
        "\<exists>u \<in> set tmpls. escapes_source ext u \<or> escapes_dest ext u"
      by auto
    from Cons.IH [OF rest] ct show ?thesis by simp
  qed
qed

text \<open>
  Claim C1, amended. With the sandbox enabled, a template whose source or destination path
  (not empty) escapes makes construction fail: no manager is returned, and the outcome does
  not depend on the engine constructor, which is never reached. The error is one of the two
  sandbox errors provided that validation and the signal loop pass and every template that
  does not escape translates; it is the source-escape error (when the source escapes) or
  else the destination-escape error of this template when every template ahead of it
  translates. The two error values differ.
\<close>

theorem sandbox_escape_aborts_construction:
  assumes "ClientConfig cfg = Some cc" and "TemplateConfig cc = Some tc" and "\<not> DisableSandbox tc"
    and "t \<in> set (Templates cfg)" and "escapes_source ext t \<or> escapes_dest ext t"
  shows "(\<exists>e. NewTaskTemplateManager ext (Some cfg) = Inl e)
       \<and> NewTaskTemplateManager (ext\<lparr> newRunnerConfig := g, manager_NewRunner := f \<rparr>) (Some cfg)
           = NewTaskTemplateManager ext (Some cfg)
       \<and> (Validate (Some cfg) = None
          \<and> parse_signals (signals_Parse ext) (Templates cfg) Map.empty = Inr sigs
          \<and> (\<forall>u \<in> set (Templates cfg).
                escapes_source ext u \<or> escapes_dest ext u
                \<or> (\<exists>ct. parseTemplateConfig ext True cfg tc u = Inr ct))
          \<longrightarrow> NewTaskTemplateManager ext (Some cfg) = Inl sourceEscapesErr
              \<or> NewTaskTemplateManager ext (Some cfg) = Inl destEscapesErr)
       \<and> (Validate (Some cfg) = None
          \<and> parse_signals (signals_Parse ext) (Templates cfg) Map.empty = Inr sigs
          \<and> Templates cfg = pre @ t # post
          \<and> (\<forall>u \<in> set pre. \<exists>ct. parseTemplateConfig ext True cfg tc u = Inr ct)
          \<longrightarrow> NewTaskTemplateManager ext (Some cfg)
                = Inl (if escapes_source ext t then sourceEscapesErr else destEscapesErr))
       \<and> sourceEscapesErr \<noteq> destEscapesErr"
proof -
  let ?err = "if escapes_source ext t then sourceEscapesErr else destEscapesErr"
  have one: "parseTemplateConfig ext True cfg tc t = Inl ?err"
    using assms(5) by (rule parseTemplateConfig_escapes)
  have ne: "Templates cfg \<noteq> []" using assms(4) by auto
  obtain e' where e': "parseTemplateConfigs_loop ext True cfg tc (Templates cfg) [] = Inl e'"
    using parseTemplateConfigs_loop_fails [OF assms(4) one] by blast
  have p: "parseTemplateConfigs ext cfg = Inl e'"
    using assms(1-3) e' by (simp add: parseTemplateConfigs_def)
  have p': "parseTemplateConfigs (ext\<lparr> newRunnerConfig := g, manager_NewRunner := f \<rparr>) cfg = Inl e'"
    using assms(1-3) e' by (simp add: parseTemplateConfigs_def parseTemplateConfigs_loop_engine)
  have r: "templateRunner ext cfg = Inl e'"
    using p ne by (simp add: templateRunner_def)
  have r': "templateRunner (ext\<lparr> newRunnerConfig := g, manager_NewRunner := f \<rparr>) cfg = Inl e'"
    using p' ne by (simp add: templateRunner_def)
  have 1: "\<exists>e. NewTaskTemplateManager ext (Some cfg) = Inl e"
    using r by (auto simp: NewTaskTemplateManager_def split: option.splits sum.splits)
  have 2: "NewTaskTemplateManager (ext\<lparr> newRunnerConfig := g, manager_NewRunner := f \<rparr>) (Some cfg)
             = NewTaskTemplateManager ext (Some cfg)"
    using r r' by (simp add: NewTaskTemplateManager_def split: option.splits sum.splits)
  have run: "NewTaskTemplateManager ext (Some cfg) = Inl e"
    if "Validate (Some cfg) = None"
      and "parse_signals (signals_Parse ext) (Templates cfg) Map.empty = Inr sigs"
      and "parseTemplateConfigs_loop ext True cfg tc (Templates cfg) [] = Inl e" for e
  proof -
    have "templateRunner ext cfg = Inl e"
      using assms(1-3) ne that(3) by (simp add: templateRunner_def parseTemplateConfigs_def)
    then show ?thesis using that(1,2) by (simp add: NewTaskTemplateManager_def)
  qed
  have 3: "NewTaskTemplateManager ext (Some cfg) = Inl sourceEscapesErr
           \<or> NewTaskTemplateManager ext (Some cfg) = Inl destEscapesErr"
    if h: "Validate (Some cfg) = None
        \<and> parse_signals (signals_Parse ext) (Templates cfg) Map.empty = Inr sigs
        \<and> (\<forall>u \<in> set (Templates cfg).
                escapes_source ext u \<or> escapes_dest ext u
                \<or> (\<exists>ct. parseTemplateConfig ext True cfg tc u = Inr ct))"
  proof -
    have "\<exists>u \<in> set (Templates cfg). escapes_source ext u \<or> escapes_dest ext u"
      using assms(4,5) by blast
    with h have "parseTemplateConfigs_loop ext True cfg tc (Templates cfg) [] = Inl sourceEscapesErr
       \<or> parseTemplateConfigs_loop ext True cfg tc (Templates cfg) [] = Inl destEscapesErr"
      by (intro parseTemplateConfigs_loop_escape) blast+
    with h run show ?thesis by blast
  qed
  have 4: "NewTaskTemplateManager ext (Some cfg) = Inl ?err"
    if h: "Validate (Some cfg) = None
        \<and> parse_signals (signals_Parse ext) (Templates cfg) Map.empty = Inr sigs
        \<and> Templates cfg = pre @ t # post
        \<and> (\<forall>u \<in> set pre. \<exists>ct. parseTemplateConfig ext True cfg tc u = Inr ct)"
  proof -
    have "parseTemplateConfigs_loop ext True cfg tc (Templates cfg) [] = Inl ?err"
      using h parseTemplateConfigs_loop_first [OF _ one, of pre post "[]"] by simp
    with h run show ?thesis by blast
  qed
  show ?thesis using 1 2 3 4 by blast
qed

text \<open>A single template whose destination escapes.\<close>

theorem sandbox_escape_aborts_construction_witness:
  "ClientConfig (ex_config [ex_template\<lparr> DestPath := ''../../etc/passwd'' \<rparr>])
     = Some \<lparr> TemplateConfig = Some \<lparr> DisableSandbox = False, FunctionDenylist = [] \<rparr> \<rparr>
   \<and> escapes_dest ex_externals (ex_template\<lparr> DestPath := ''../../etc/passwd'' \<rparr>)
   \<and> \<not> escapes_source ex_externals (ex_template\<lparr> DestPath := ''../../etc/passwd'' \<rparr>)
   \<and> Validate (Some (ex_config [ex_template\<lparr> DestPath := ''../../etc/passwd'' \<rparr>])) = None
   \<and> NewTaskTemplateManager ex_externals
        (Some (ex_config [ex_template\<lparr> DestPath := ''../../etc/passwd'' \<rparr>]))
       = Inl destEscapesErr"
proof -
  let ?t = "ex_template\<lparr> DestPath := ''../../etc/passwd'' \<rparr>"
  let ?tc = "\<lparr> DisableSandbox = False, FunctionDenylist = [] \<rparr>"
  have a: "ClientConfig (ex_config [?t]) = Some \<lparr> TemplateConfig = Some ?tc \<rparr>"
    by (simp add: ex_config_def)
  have b: "TemplateConfig \<lparr> TemplateConfig = Some ?tc \<rparr> = Some ?tc" by simp
  have c: "\<not> DisableSandbox ?tc" by simp
  have d: "?t \<in> set (Templates (ex_config [?t]))" by (simp add: ex_config_def)
  have e: "escapes_source ex_externals ?t \<or> escapes_dest ex_externals ?t"
    by (simp add: escapes_dest_def ex_externals_def ex_template_def)
  have v: "Validate (Some (ex_config [?t])) = None"
    by (simp add: Validate_def ex_config_def)
  have s: "parse_signals (signals_Parse ex_externals) (Templates (ex_config [?t])) Map.empty
             = Inr Map.empty"
    by (simp add: ex_config_def ex_template_def)
  show ?thesis
    using sandbox_escape_aborts_construction
            [OF a b c d e, where sigs = Map.empty and pre = "[]" and post = "[]"] a v s
    by (simp add: escapes_dest_def escapes_source_def ex_externals_def ex_template_def ex_config_def)
qed

text \<open>
  Claim C1 as stated fails when an earlier check finds another fault: here the template's
  destination escapes and its change signal does not parse, and construction fails with
  the signal error, which is neither sandbox error.
\<close>

theorem sandbox_escape_error_counterexample:
  "escapes_dest ex_externals (ex_template\<lparr> DestPath := ''../../etc/passwd'', ChangeSignal := ''BOGUS'' \<rparr>)
   \<and> Validate (Some (ex_config [ex_template\<lparr> DestPath := ''../../etc/passwd'',
                                              ChangeSignal := ''BOGUS'' \<rparr>])) = None
   \<and> NewTaskTemplateManager ex_externals
        (Some (ex_config [ex_template\<lparr> DestPath := ''../../etc/passwd'', ChangeSignal := ''BOGUS'' \<rparr>]))
       = Inl (FailedToParseSignal ''BOGUS'')
   \<and> FailedToParseSignal ''BOGUS'' \<noteq> sourceEscapesErr
   \<and> FailedToParseSignal ''BOGUS'' \<noteq> destEscapesErr"
  by (simp add: escapes_dest_def ex_externals_def ex_template_def ex_config_def
        NewTaskTemplateManager_def Validate_def)

section \<open>Stop: properties\<close>

lemma Stop_shutdown: "shutdown tm \<Longrightarrow> Stop tm = ([], tm)"
  by (simp add: Stop_def)

lemma Stop_times_shutdown: "shutdown tm \<Longrightarrow> Stop_times n tm = ([], tm)"
  by (induction n) (simp_all add: Stop_shutdown prepend_def)

lemma NewTaskTemplateManager_fresh:
  "NewTaskTemplateManager ext c = Inr tm \<Longrightarrow> \<not> shutdown tm \<and> shutdownCh tm = Open"
  by (auto simp: NewTaskTemplateManager_def split: option.splits sum.splits)

lemma Stop_times_fresh:
  assumes "\<not> shutdown tm" and "shutdownCh tm = Open"
  shows "Stop_times (Suc n) tm =
           (close_shutdownCh # (if runner tm \<noteq> None then [runner_Stop] else []),
            tm\<lparr> shutdownCh := Closed, shutdown := True \<rparr>)"
  using assms by (simp add: Stop_def Stop_times_shutdown prepend_def)

text \<open>
  Claim C8, amended. On a freshly constructed manager, \<open>N \<ge> 1\<close> calls of \<open>Stop\<close> close the
  shutdown channel exactly once and stop the engine exactly once when the manager has an
  engine, and not at all when it has none (no templates); the calls after the first change
  nothing and have no effect.
\<close>

theorem Stop_idempotent:
  assumes "NewTaskTemplateManager ext c = Inr tm" and "1 \<le> N"
  shows "count_list (fst (Stop_times N tm)) close_shutdownCh = 1
       \<and> count_list (fst (Stop_times N tm)) runner_Stop = (if runner tm = None then 0 else 1)
       \<and> fst (Stop_times N tm) = fst (Stop tm)
       \<and> snd (Stop_times N tm) = snd (Stop tm)
       \<and> Stop (snd (Stop tm)) = ([], snd (Stop tm))"
proof -
  obtain n where N: "N = Suc n" using assms(2) by (cases N) auto
  have f: "\<not> shutdown tm" "shutdownCh tm = Open"
    using NewTaskTemplateManager_fresh [OF assms(1)] by auto
  show ?thesis
    unfolding N Stop_times_fresh [OF f] using f by (simp add: Stop_def)
qed

text \<open>Three calls of \<open>Stop\<close> on the example manager with one template.\<close>

theorem Stop_idempotent_witness:
  "NewTaskTemplateManager ex_externals (Some (ex_config [ex_template])) = Inr (ex_manager [ex_template])
   \<and> (1::nat) \<le> 3
   \<and> fst (Stop_times 3 (ex_manager [ex_template])) = [close_shutdownCh, runner_Stop]
   \<and> count_list (fst (Stop_times 3 (ex_manager [ex_template]))) close_shutdownCh = 1
   \<and> count_list (fst (Stop_times 3 (ex_manager [ex_template]))) runner_Stop = 1"
proof -
  have le: "(1::nat) \<le> 3" by simp
  show ?thesis
    using Stop_idempotent [OF ex_construct le] ex_construct
    by (simp add: Stop_def ex_manager_def)
qed

text \<open>
  Claim C8 as stated fails for a manager without templates: construction succeeds with no
  engine, and two calls of \<open>Stop\<close> close the channel once and stop no engine.
\<close>

theorem Stop_engine_once_counterexample:
  "NewTaskTemplateManager ex_externals (Some (ex_config [])) = Inr (ex_manager [])
   \<and> count_list (fst (Stop_times 2 (ex_manager []))) close_shutdownCh = 1
   \<and> count_list (fst (Stop_times 2 (ex_manager []))) runner_Stop \<noteq> 1"
  by (simp add: ex_construct_empty numeral_2_eq_2 Stop_def ex_manager_def prepend_def)

section \<open>The dispatcher: facts about its parts\<close>

subsection \<open>The scan\<close>

lemma fun_upd_lambda [simp]: "(\<lambda>x. if x = k then v else h x) = h(k := v)"
  by (simp add: fun_eq_iff)

lemma hget_upd_other: "k \<noteq> k' \<Longrightarrow> hget (h(k \<mapsto> v)) k' = hget h k'"
  by (simp add: hget_def)

lemma fresh_upd_other: "k \<noteq> fst p \<Longrightarrow> fresh a (h(k \<mapsto> v)) p = fresh a h p"
  by (simp add: fresh_def hget_def)

lemma filter_fresh_upd:
  "k \<notin> fst ` set evs \<Longrightarrow> filter (fresh a (h(k \<mapsto> v))) evs = filter (fresh a h) evs"
proof (rule filter_cong [OF refl])
  fix p assume "k \<notin> fst ` set evs" and "p \<in> set evs"
  then have "k \<noteq> fst p" by force
  then show "fresh a (h(k \<mapsto> v)) p = fresh a h p" by (rule fresh_upd_other)
qed

text \<open>The five ways the loop body of the scan can go.\<close>

lemma scan_stamp:
  "LastDidRender ev \<le> a \<Longrightarrow>
   scan tm w a ((tid, ev) # evs) h b = scan tm w a evs (h(tid \<mapsto> a)) b"
  by simp

lemma scan_handled:
  "a < LastDidRender ev \<Longrightarrow> LastDidRender ev \<le> hget h tid \<Longrightarrow>
   scan tm w a ((tid, ev) # evs) h b = scan tm w a evs h b"
  by simp

lemma scan_unknown:
  "a < LastDidRender ev \<Longrightarrow> hget h tid < LastDidRender ev \<Longrightarrow> map_of (lookup tm) tid = None \<Longrightarrow>
   scan tm w a ((tid, ev) # evs) h b =
     (h, [Kill (kill_event (''Template runner returned unknown template id '' @ quoted tid))], None)"
  by simp

lemma scan_env_failed:
  "a < LastDidRender ev \<Longrightarrow> hget h tid < LastDidRender ev \<Longrightarrow>
   map_of (lookup tm) tid = Some tmpls \<Longrightarrow>
   loadTemplateEnv (Templates (config tm)) (taskEnv_at w tid) (files_at w tid) = Inl err \<Longrightarrow>
   scan tm w a ((tid, ev) # evs) h b =
     (h, [Kill (kill_event (''Template failed to read environment variables: '' @ err))], None)"
  by simp

lemma scan_fresh:
  "a < LastDidRender ev \<Longrightarrow> hget h tid < LastDidRender ev \<Longrightarrow>
   map_of (lookup tm) tid = Some tmpls \<Longrightarrow>
   loadTemplateEnv (Templates (config tm)) (taskEnv_at w tid) (files_at w tid) = Inr envMap \<Longrightarrow>
   scan tm w a evs h ((classify tmpls b)\<lparr> handling := handling (classify tmpls b) @ [tid] \<rparr>)
     = (h', es, r) \<Longrightarrow>
   scan tm w a ((tid, ev) # evs) h b = (h', SetTemplateEnv envMap # es, r)"
  by simp

lemma scan_head_cases [case_names stamp handled unknown env_failed fresh]:
  obtains
    "LastDidRender ev \<le> a"
  | "a < LastDidRender ev" "LastDidRender ev \<le> hget h tid"
  | "a < LastDidRender ev" "hget h tid < LastDidRender ev" "map_of (lookup tm) tid = None"
  | tmpls err where "a < LastDidRender ev" "hget h tid < LastDidRender ev"
      "map_of (lookup tm) tid = Some tmpls"
      "loadTemplateEnv (Templates (config tm)) (taskEnv_at w tid) (files_at w tid) = Inl err"
  | tmpls envMap h' es r where "a < LastDidRender ev" "hget h tid < LastDidRender ev"
      "map_of (lookup tm) tid = Some tmpls"
      "loadTemplateEnv (Templates (config tm)) (taskEnv_at w tid) (files_at w tid) = Inr envMap"
      "scan tm w a evs h ((classify tmpls b)\<lparr> handling := handling (classify tmpls b) @ [tid] \<rparr>)
         = (h', es, r)"
proof (cases "LastDidRender ev \<le> a")
  case True
  then show ?thesis using that(1) by blast
next
  case na: False
  show ?thesis
  proof (cases "LastDidRender ev \<le> hget h tid")
    case True
    then show ?thesis using na that(2) by auto
  next
    case nh: False
    show ?thesis
    proof (cases "map_of (lookup tm) tid")
      case None
      then show ?thesis using na nh that(3) by auto
    next
      case (Some tmpls)
      show ?thesis
      proof (cases "loadTemplateEnv (Templates (config tm)) (taskEnv_at w tid) (files_at w tid)")
        case (Inl err)
        then show ?thesis using na nh Some that(4) by auto
      next
        case (Inr envMap)
        obtain h' es r where
          "scan tm w a evs h ((classify tmpls b)\<lparr> handling := handling (classify tmpls b) @ [tid] \<rparr>)
             = (h', es, r)"
          using prod_cases3 by blast
        then show ?thesis using na nh Some Inr that(5) by auto
      qed
    qed
  qed
qed

declare scan.simps(2) [simp del]

lemma scan_effects:
  "scan tm w a evs h b = (h', es, r) \<Longrightarrow>
   (\<forall>e \<in> set es. \<not> change_action e \<and> (\<forall>d. e \<noteq> Sleep d))
   \<and> (r \<noteq> None \<longrightarrow> (\<forall>e \<in> set es. \<not> lifecycle_call e))"
proof (induction evs arbitrary: h b h' es r)
  case Nil
  then show ?case by simp
next
  case (Cons p evs)
  obtain tid ev where p: "p = (tid, ev)" by (cases p)
  note prem = Cons.prems [unfolded p]
  show ?case
  proof (cases rule: scan_head_cases [where ev = ev and a = a and h = h and tid = tid and tm = tm
        and w = w and evs = evs and b = b])
    case stamp
    from prem have "scan tm w a evs (h(tid \<mapsto> a)) b = (h', es, r)"
      unfolding scan_stamp [OF stamp] .
    then show ?thesis by (rule Cons.IH)
  next
    case handled
    from prem have "scan tm w a evs h b = (h', es, r)"
      unfolding scan_handled [OF handled] .
    then show ?thesis by (rule Cons.IH)
  next
    case unknown
    from prem show ?thesis unfolding scan_unknown [OF unknown] by auto
  next
    case (env_failed tmpls err)
    from prem show ?thesis unfolding scan_env_failed [OF env_failed] by auto
  next
    case (fresh tmpls envMap h1 es1 r1)
    from prem have "h' = h1" "es = SetTemplateEnv envMap # es1" "r = r1"
      unfolding scan_fresh [OF fresh] by auto
    with Cons.IH [OF fresh(5)] show ?thesis by auto
  qed
qed

lemma scan_h_other:
  "k \<notin> fst ` set evs \<Longrightarrow> fst (scan tm w a evs h b) k = h k"
proof (induction evs arbitrary: h b)
  case Nil
  then show ?case by simp
next
  case (Cons p evs)
  obtain tid ev where p: "p = (tid, ev)" by (cases p)
  have k: "k \<noteq> tid" "k \<notin> fst ` set evs" using Cons.prems unfolding p by auto
  show ?case unfolding p
  proof (cases rule: scan_head_cases [where ev = ev and a = a and h = h and tid = tid and tm = tm
        and w = w and evs = evs and b = b])
    case stamp
    have "fst (scan tm w a evs (h(tid \<mapsto> a)) b) k = (h(tid \<mapsto> a)) k"
      using k(2) by (rule Cons.IH)
    also have "\<dots> = h k" using k(1) by simp
    finally show "fst (scan tm w a ((tid, ev) # evs) h b) k = h k"
      unfolding scan_stamp [OF stamp] .
  next
    case handled
    show "fst (scan tm w a ((tid, ev) # evs) h b) k = h k"
      unfolding scan_handled [OF handled] using k(2) by (rule Cons.IH)
  next
    case unknown
    show "fst (scan tm w a ((tid, ev) # evs) h b) k = h k"
      unfolding scan_unknown [OF unknown] by simp
  next
    case (env_failed tmpls err)
    show "fst (scan tm w a ((tid, ev) # evs) h b) k = h k"
      unfolding scan_env_failed [OF env_failed] by simp
  next
    case (fresh tmpls envMap h1 es1 r1)
    have "fst (scan tm w a evs h ((classify tmpls b)\<lparr> handling := handling (classify tmpls b) @ [tid] \<rparr>)) k
            = h k"
      using k(2) by (rule Cons.IH)
    then show "fst (scan tm w a ((tid, ev) # evs) h b) k = h k"
      unfolding scan_fresh [OF fresh] fresh(5) by simp
  qed
qed

lemma scan_h_changed:
  "fst (scan tm w a evs h b) k \<noteq> h k \<Longrightarrow>
   fst (scan tm w a evs h b) k = Some a \<and> (\<exists>ev. (k, ev) \<in> set evs \<and> LastDidRender ev \<le> a)"
proof (induction evs arbitrary: h b)
  case Nil
  then show ?case by simp
next
  case (Cons p evs)
  obtain tid ev where p: "p = (tid, ev)" by (cases p)
  note prem = Cons.prems [unfolded p]
  show ?case unfolding p
  proof (cases rule: scan_head_cases [where ev = ev and a = a and h = h and tid = tid and tm = tm
        and w = w and evs = evs and b = b])
    case stamp
    let ?h = "h(tid \<mapsto> a)"
    note eq = scan_stamp [OF stamp, of tm w tid evs h b]
    show "fst (scan tm w a ((tid, ev) # evs) h b) k = Some a
          \<and> (\<exists>ev'. (k, ev') \<in> set ((tid, ev) # evs) \<and> LastDidRender ev' \<le> a)"
    proof (cases "fst (scan tm w a evs ?h b) k = ?h k")
      case True
      have "k = tid"
      proof (rule ccontr)
        assume "k \<noteq> tid"
        then have "?h k = h k" by simp
        with True prem show False unfolding eq by simp
      qed
      then have "?h k = Some a" by simp
      with True \<open>k = tid\<close> stamp show ?thesis unfolding eq by auto
    next
      case False
      from Cons.IH [OF False] show ?thesis unfolding eq by auto
    qed
  next
    case handled
    note eq = scan_handled [OF handled, of tm w evs b]
    from prem have "fst (scan tm w a evs h b) k \<noteq> h k" unfolding eq .
    from Cons.IH [OF this]
    show "fst (scan tm w a ((tid, ev) # evs) h b) k = Some a
          \<and> (\<exists>ev'. (k, ev') \<in> set ((tid, ev) # evs) \<and> LastDidRender ev' \<le> a)"
      unfolding eq by auto
  next
    case unknown
    from prem have False unfolding scan_unknown [OF unknown] by simp
    then show "fst (scan tm w a ((tid, ev) # evs) h b) k = Some a
          \<and> (\<exists>ev'. (k, ev') \<in> set ((tid, ev) # evs) \<and> LastDidRender ev' \<le> a)" ..
  next
    case (env_failed tmpls err)
    from prem have False unfolding scan_env_failed [OF env_failed] by simp
    then show "fst (scan tm w a ((tid, ev) # evs) h b) k = Some a
          \<and> (\<exists>ev'. (k, ev') \<in> set ((tid, ev) # evs) \<and> LastDidRender ev' \<le> a)" ..
  next
    case (fresh tmpls envMap h1 es1 r1)
    let ?b = "(classify tmpls b)\<lparr> handling := handling (classify tmpls b) @ [tid] \<rparr>"
    have eq: "fst (scan tm w a ((tid, ev) # evs) h b) = fst (scan tm w a evs h ?b)"
      unfolding scan_fresh [OF fresh] fresh(5) by simp
    from prem have "fst (scan tm w a evs h ?b) k \<noteq> h k" unfolding eq .
    from Cons.IH [OF this]
    show "fst (scan tm w a ((tid, ev) # evs) h b) k = Some a
          \<and> (\<exists>ev'. (k, ev') \<in> set ((tid, ev) # evs) \<and> LastDidRender ev' \<le> a)"
      unfolding eq by auto
  qed
qed

lemma scan_fresh_unchanged:
  assumes "distinct (map fst evs)" and "(k, e) \<in> set evs" and "a < LastDidRender e"
  shows "fst (scan tm w a evs h b) k = h k"
proof (rule ccontr)
  assume "fst (scan tm w a evs h b) k \<noteq> h k"
  from scan_h_changed [OF this] obtain e' where e': "(k, e') \<in> set evs" "LastDidRender e' \<le> a"
    by blast
  from assms(1,2) e'(1) have "e' = e" by (meson eq_key_imp_eq_value)
  with e'(2) assms(3) show False by simp
qed

lemma scan_fresh_preserved:
  assumes "distinct (map fst evs)" and "p \<in> set evs" and "fresh a h p"
  shows "fresh a (fst (scan tm w a evs h b)) p"
proof -
  obtain k e where p: "p = (k, e)" by (cases p)
  from assms(3) have "a < LastDidRender e" unfolding p by (simp add: fresh_def)
  from scan_fresh_unchanged [OF assms(1) assms(2) [unfolded p] this]
  have "fst (scan tm w a evs h b) k = h k" .
  then show ?thesis using assms(3) unfolding p by (simp add: fresh_def hget_def)
qed

subsection \<open>The classification of templates\<close>

lemma modes_distinct [simp]:
  "TemplateChangeModeSignal \<noteq> TemplateChangeModeRestart"
  "TemplateChangeModeSignal \<noteq> TemplateChangeModeScript"
  "TemplateChangeModeSignal \<noteq> TemplateChangeModeNoop"
  "TemplateChangeModeRestart \<noteq> TemplateChangeModeSignal"
  "TemplateChangeModeRestart \<noteq> TemplateChangeModeScript"
  "TemplateChangeModeRestart \<noteq> TemplateChangeModeNoop"
  "TemplateChangeModeScript \<noteq> TemplateChangeModeSignal"
  "TemplateChangeModeScript \<noteq> TemplateChangeModeRestart"
  "TemplateChangeModeScript \<noteq> TemplateChangeModeNoop"
  "TemplateChangeModeNoop \<noteq> TemplateChangeModeSignal"
  "TemplateChangeModeNoop \<noteq> TemplateChangeModeRestart"
  "TemplateChangeModeNoop \<noteq> TemplateChangeModeScript"
  by (simp_all add: TemplateChangeModeSignal_def TemplateChangeModeRestart_def
        TemplateChangeModeScript_def TemplateChangeModeNoop_def)

lemma bump_splay_fields [simp]:
  "handling (bump_splay t b) = handling b"
  "restart (bump_splay t b) = restart b"
  "signal_set (bump_splay t b) = signal_set b"
  "scripts (bump_splay t b) = scripts b"
  "splay (bump_splay t b) = max (Splay t) (splay b)"
  by (simp_all add: bump_splay_def)

lemma classify_handling [simp]: "handling (classify tmpls b) = handling b"
  by (induction tmpls arbitrary: b) simp_all

lemma classify_restart:
  "restart (classify tmpls b)
     = (restart b \<or> (\<exists>t \<in> set tmpls. ChangeMode t = TemplateChangeModeRestart))"
  by (induction tmpls arbitrary: b) auto

lemma classify_splay:
  "splay (classify tmpls b) = max_splay (filter actionable tmpls) (splay b)"
  by (induction tmpls arbitrary: b) (auto simp: max_splay_def actionable_def)

lemma max_splay_ge: "s \<le> max_splay tmpls s"
proof (induction tmpls arbitrary: s)
  case Nil
  then show ?case by (simp add: max_splay_def)
next
  case (Cons t tmpls)
  have "s \<le> max (Splay t) s" by simp
  also have "\<dots> \<le> max_splay tmpls (max (Splay t) s)" by (rule Cons.IH)
  finally show ?case by (simp add: max_splay_def)
qed

lemma classify_splay_mono: "splay b \<le> splay (classify tmpls b)"
  by (simp add: classify_splay max_splay_ge)

lemma classify_signal_set_mono: "signal_set b \<noteq> [] \<Longrightarrow> signal_set (classify tmpls b) \<noteq> []"
  by (induction tmpls arbitrary: b) (auto simp: List.insert_def)

lemma classify_scripts_mono: "scripts b \<noteq> [] \<Longrightarrow> scripts (classify tmpls b) \<noteq> []"
  by (induction tmpls arbitrary: b) auto

subsection \<open>The pending batch\<close>

lemma pending_batch_upd:
  "k \<notin> fst ` set evs \<Longrightarrow> pending_batch tm a (h(k \<mapsto> v)) evs b = pending_batch tm a h evs b"
proof (induction evs arbitrary: b)
  case Nil
  then show ?case by simp
next
  case (Cons p evs)
  then have "k \<noteq> fst p" "k \<notin> fst ` set evs" by auto
  then show ?case using Cons.IH by (simp add: fresh_upd_other)
qed

lemma pending_batch_restart_mono:
  "restart b \<Longrightarrow> restart (pending_batch tm a h evs b)"
  by (induction evs arbitrary: b) (simp_all add: classify_restart)

lemma pending_batch_restart:
  "p \<in> set evs \<Longrightarrow> fresh a h p \<Longrightarrow> t \<in> set (templates_of tm (fst p)) \<Longrightarrow>
   ChangeMode t = TemplateChangeModeRestart \<Longrightarrow> restart (pending_batch tm a h evs b)"
proof (induction evs arbitrary: b)
  case Nil
  then show ?case by simp
next
  case (Cons q evs)
  show ?case
  proof (cases "p = q")
    case True
    then show ?thesis using Cons.prems
      by (auto simp: classify_restart intro!: pending_batch_restart_mono)
  next
    case False
    then have "p \<in> set evs" using Cons.prems by auto
    from Cons.IH [OF this Cons.prems(2-4)] show ?thesis by simp
  qed
qed

lemma pending_batch_handling:
  "handling (pending_batch tm a h evs b) = handling b @ map fst (filter (fresh a h) evs)"
  by (induction evs arbitrary: b) simp_all



subsection \<open>The scan computes the pending batch\<close>

lemma scan_batch:
  "distinct (map fst evs) \<Longrightarrow> scan tm w a evs h b = (h', es, Some b') \<Longrightarrow>
   b' = pending_batch tm a h evs b"
proof (induction evs arbitrary: h b h' es)
  case Nil
  then show ?case by simp
next
  case (Cons p evs)
  obtain tid ev where p: "p = (tid, ev)" by (cases p)
  have d: "distinct (map fst evs)" "tid \<notin> fst ` set evs" using Cons.prems(1) unfolding p by auto
  note prem = Cons.prems(2) [unfolded p]
  show ?case unfolding p
  proof (cases rule: scan_head_cases [where ev = ev and a = a and h = h and tid = tid and tm = tm
        and w = w and evs = evs and b = b])
    case stamp
    from prem have "scan tm w a evs (h(tid \<mapsto> a)) b = (h', es, Some b')"
      unfolding scan_stamp [OF stamp] .
    from Cons.IH [OF d(1) this] have "b' = pending_batch tm a h evs b"
      by (simp add: pending_batch_upd [OF d(2)])
    then show "b' = pending_batch tm a h ((tid, ev) # evs) b"
      using stamp by (simp add: fresh_def)
  next
    case handled
    from prem have "scan tm w a evs h b = (h', es, Some b')"
      unfolding scan_handled [OF handled] .
    from Cons.IH [OF d(1) this]
    show "b' = pending_batch tm a h ((tid, ev) # evs) b"
      using handled by (simp add: fresh_def)
  next
    case unknown
    from prem have False unfolding scan_unknown [OF unknown] by simp
    then show "b' = pending_batch tm a h ((tid, ev) # evs) b" ..
  next
    case (env_failed tmpls err)
    from prem have False unfolding scan_env_failed [OF env_failed] by simp
    then show "b' = pending_batch tm a h ((tid, ev) # evs) b" ..
  next
    case (fresh tmpls envMap h1 es1 r1)
    let ?b = "(classify tmpls b)\<lparr> handling := handling (classify tmpls b) @ [tid] \<rparr>"
    from prem have r1: "r1 = Some b'" unfolding scan_fresh [OF fresh] by simp
    from Cons.IH [OF d(1) fresh(5) [unfolded r1]] have "b' = pending_batch tm a h evs ?b" .
    then show "b' = pending_batch tm a h ((tid, ev) # evs) b"
      using fresh(1-3) by (simp add: fresh_def templates_of_def)
  qed
qed

lemma scan_completes:
  "distinct (map fst evs) \<Longrightarrow> scan_unhindered tm w a h evs \<Longrightarrow>
   \<exists>h' es. scan tm w a evs h b = (h', es, Some (pending_batch tm a h evs b))"
proof (induction evs arbitrary: h b)
  case Nil
  then show ?case by simp
next
  case (Cons p evs)
  obtain tid ev where p: "p = (tid, ev)" by (cases p)
  have d: "distinct (map fst evs)" "tid \<notin> fst ` set evs" using Cons.prems(1) unfolding p by auto
  have u: "scan_unhindered tm w a h evs" using Cons.prems(2) by (simp add: scan_unhindered_def)
  have "\<exists>h' es b'. scan tm w a ((tid, ev) # evs) h b = (h', es, Some b')"
  proof (cases rule: scan_head_cases [where ev = ev and a = a and h = h and tid = tid and tm = tm
        and w = w and evs = evs and b = b])
    case stamp
    have "scan_unhindered tm w a (h(tid \<mapsto> a)) evs"
      unfolding scan_unhindered_def
    proof
      fix q assume q: "q \<in> set evs"
      then have "tid \<noteq> fst q" using d(2) by force
      then have "fresh a (h(tid \<mapsto> a)) q = fresh a h q" by (rule fresh_upd_other)
      then show "fresh a (h(tid \<mapsto> a)) q \<longrightarrow>
          map_of (lookup tm) (fst q) \<noteq> None
          \<and> \<not> isl (loadTemplateEnv (Templates (config tm)) (taskEnv_at w (fst q))
                     (files_at w (fst q)))"
        using u q unfolding scan_unhindered_def by simp
    qed
    from Cons.IH [OF d(1) this, of b] show ?thesis unfolding scan_stamp [OF stamp] by blast
  next
    case handled
    from Cons.IH [OF d(1) u, of b] show ?thesis unfolding scan_handled [OF handled] by blast
  next
    case unknown
    then have "fresh a h p" unfolding p by (simp add: fresh_def)
    with Cons.prems(2) unknown(3) have False unfolding p scan_unhindered_def by simp
    then show ?thesis ..
  next
    case (env_failed tmpls err)
    then have "fresh a h p" unfolding p by (simp add: fresh_def)
    with Cons.prems(2) env_failed(4) have False unfolding p scan_unhindered_def by simp
    then show ?thesis ..
  next
    case (fresh tmpls envMap h1 es1 r1)
    let ?b = "(classify tmpls b)\<lparr> handling := handling (classify tmpls b) @ [tid] \<rparr>"
    from Cons.IH [OF d(1) u, of ?b] fresh(5) obtain b1 where "r1 = Some b1" by auto
    then show ?thesis unfolding scan_fresh [OF fresh] by simp
  qed
  then obtain h' es b' where s: "scan tm w a (p # evs) h b = (h', es, Some b')"
    unfolding p by blast
  from scan_batch [OF Cons.prems(1) s] s show ?case by simp
qed

lemma scan_stamped:
  "distinct (map fst evs) \<Longrightarrow> scan tm w a evs h b = (h', es, Some b') \<Longrightarrow>
   (k, e) \<in> set evs \<Longrightarrow> LastDidRender e \<le> a \<Longrightarrow> h' k = Some a"
proof (induction evs arbitrary: h b h' es)
  case Nil
  then show ?case by simp
next
  case (Cons p evs)
  obtain tid ev where p: "p = (tid, ev)" by (cases p)
  have d: "distinct (map fst evs)" "tid \<notin> fst ` set evs" using Cons.prems(1) unfolding p by auto
  note prem = Cons.prems(2) [unfolded p]
  show ?case
  proof (cases rule: scan_head_cases [where ev = ev and a = a and h = h and tid = tid and tm = tm
        and w = w and evs = evs and b = b])
    case stamp
    from prem have s: "scan tm w a evs (h(tid \<mapsto> a)) b = (h', es, Some b')"
      unfolding scan_stamp [OF stamp] .
    show ?thesis
    proof (cases "(k, e) \<in> set evs")
      case True
      from Cons.IH [OF d(1) s True Cons.prems(4)] show ?thesis .
    next
      case False
      then have "k = tid" using Cons.prems(3) unfolding p by auto
      with scan_h_other [OF d(2), of tm w a "h(tid \<mapsto> a)" b] s show ?thesis by simp
    qed
  next
    case handled
    from prem have s: "scan tm w a evs h b = (h', es, Some b')"
      unfolding scan_handled [OF handled] .
    from handled Cons.prems(3,4) have "(k, e) \<in> set evs" unfolding p by auto
    from Cons.IH [OF d(1) s this Cons.prems(4)] show ?thesis .
  next
    case unknown
    from prem have False unfolding scan_unknown [OF unknown] by simp
    then show ?thesis ..
  next
    case (env_failed tmpls err)
    from prem have False unfolding scan_env_failed [OF env_failed] by simp
    then show ?thesis ..
  next
    case (fresh tmpls envMap h1 es1 r1)
    from prem have r1: "r1 = Some b'" "h1 = h'" unfolding scan_fresh [OF fresh] by simp_all
    from fresh(1) Cons.prems(3,4) have "(k, e) \<in> set evs" unfolding p by auto
    from Cons.IH [OF d(1) fresh(5) [unfolded r1] this Cons.prems(4)] show ?thesis .
  qed
qed

lemma scan_idem:
  "distinct (map fst evs) \<Longrightarrow> scan tm w a evs h b = (h1, es, r) \<Longrightarrow>
   scan tm w a evs h1 b = (h1, es, r)"
proof (induction evs arbitrary: h b es)
  case Nil
  then show ?case by simp
next
  case (Cons p evs)
  obtain tid ev where p: "p = (tid, ev)" by (cases p)
  have d: "distinct (map fst evs)" "tid \<notin> fst ` set evs" using Cons.prems(1) unfolding p by auto
  note prem = Cons.prems(2) [unfolded p]
  show ?case unfolding p
  proof (cases rule: scan_head_cases [where ev = ev and a = a and h = h and tid = tid and tm = tm
        and w = w and evs = evs and b = b])
    case stamp
    from prem have s: "scan tm w a evs (h(tid \<mapsto> a)) b = (h1, es, r)"
      unfolding scan_stamp [OF stamp] .
    from scan_h_other [OF d(2), of tm w a "h(tid \<mapsto> a)" b] s have "h1 tid = Some a" by simp
    then have "h1(tid \<mapsto> a) = h1" by (simp add: fun_upd_idem)
    with Cons.IH [OF d(1) s]
    show "scan tm w a ((tid, ev) # evs) h1 b = (h1, es, r)"
      unfolding scan_stamp [OF stamp] by simp
  next
    case handled
    from prem have s: "scan tm w a evs h b = (h1, es, r)"
      unfolding scan_handled [OF handled] .
    from scan_h_other [OF d(2), of tm w a h b] s have "h1 tid = h tid" by simp
    then have "LastDidRender ev \<le> hget h1 tid" using handled(2) by (simp add: hget_def)
    from scan_handled [OF handled(1) this] Cons.IH [OF d(1) s]
    show "scan tm w a ((tid, ev) # evs) h1 b = (h1, es, r)" by simp
  next
    case unknown
    from prem have "h1 = h" unfolding scan_unknown [OF unknown] by simp
    with prem show "scan tm w a ((tid, ev) # evs) h1 b = (h1, es, r)" by simp
  next
    case (env_failed tmpls err)
    from prem have "h1 = h" unfolding scan_env_failed [OF env_failed] by simp
    with prem show "scan tm w a ((tid, ev) # evs) h1 b = (h1, es, r)" by simp
  next
    case (fresh tmpls envMap h2 es2 r2)
    let ?b = "(classify tmpls b)\<lparr> handling := handling (classify tmpls b) @ [tid] \<rparr>"
    from prem have eq: "h2 = h1" "es = SetTemplateEnv envMap # es2" "r2 = r"
      unfolding scan_fresh [OF fresh] by simp_all
    have s: "scan tm w a evs h ?b = (h1, es2, r)" using fresh(5) eq by simp
    from scan_h_other [OF d(2), of tm w a h ?b] s have "h1 tid = h tid" by simp
    then have f: "hget h1 tid < LastDidRender ev" using fresh(2) by (simp add: hget_def)
    from scan_fresh [OF fresh(1) f fresh(3,4) Cons.IH [OF d(1) s]]
    show "scan tm w a ((tid, ev) # evs) h1 b = (h1, es, r)" unfolding eq .
  qed
qed

lemma scan_all_stale:
  "\<forall>p \<in> set evs. (LastDidRender (snd p) \<le> a \<and> h (fst p) = Some a)
                 \<or> (a < LastDidRender (snd p) \<and> LastDidRender (snd p) \<le> hget h (fst p)) \<Longrightarrow>
   scan tm w a evs h b = (h, [], Some b)"
proof (induction evs)
  case Nil
  then show ?case by simp
next
  case (Cons p evs)
  obtain tid ev where p: "p = (tid, ev)" by (cases p)
  from Cons.prems have hd: "(LastDidRender ev \<le> a \<and> h tid = Some a)
                 \<or> (a < LastDidRender ev \<and> LastDidRender ev \<le> hget h tid)"
    unfolding p by simp
  from Cons.prems have IH: "scan tm w a evs h b = (h, [], Some b)" by (intro Cons.IH) simp
  show ?case unfolding p
  proof (cases "LastDidRender ev \<le> a")
    case True
    with hd have "h(tid \<mapsto> a) = h" by (simp add: fun_upd_idem)
    then show "scan tm w a ((tid, ev) # evs) h b = (h, [], Some b)"
      unfolding scan_stamp [OF True] using IH by simp
  next
    case False
    with hd have "a < LastDidRender ev" "LastDidRender ev \<le> hget h tid" by auto
    then show "scan tm w a ((tid, ev) # evs) h b = (h, [], Some b)"
      using IH by (simp add: scan_handled)
  qed
qed

subsection \<open>The commit\<close>

lemma commit_other: "k \<notin> set ids \<Longrightarrow> commit events ids h k = h k"
  by (induction ids arbitrary: h) (auto split: option.splits)

lemma commit_in:
  "k \<in> set ids \<Longrightarrow> map_of events k = Some ev \<Longrightarrow>
   commit events ids h k = Some (LastDidRender ev)"
proof (induction ids arbitrary: h)
  case Nil
  then show ?case by simp
next
  case (Cons i ids)
  show ?case
  proof (cases "k \<in> set ids")
    case True
    from Cons.IH [OF True Cons.prems(2)] show ?thesis by simp
  next
    case False
    then have "i = k" using Cons.prems(1) by auto
    then show ?thesis using False Cons.prems(2) by (simp add: commit_other)
  qed
qed

lemma distinct_map_of: "distinct (map fst evs) \<Longrightarrow> (k, e) \<in> set evs \<Longrightarrow> map_of evs k = Some e"
  by simp

lemma applied_all_stale:
  assumes d: "distinct (map fst events)"
    and s: "scan tm w a events h empty_batch = (hs, es, Some b)"
    and p: "p \<in> set events"
  shows "(fresh a h p \<longrightarrow> commit events (handling b) hs (fst p) = Some (LastDidRender (snd p)))
       \<and> ((LastDidRender (snd p) \<le> a \<and> commit events (handling b) hs (fst p) = Some a)
          \<or> (a < LastDidRender (snd p)
              \<and> LastDidRender (snd p) \<le> hget (commit events (handling b) hs) (fst p)))"
proof -
  obtain k e where pk: "p = (k, e)" by (cases p)
  have ke: "(k, e) \<in> set events" using p unfolding pk .
  have m: "map_of events k = Some e" using d ke by (rule distinct_map_of)
  have hb: "handling b = map fst (filter (fresh a h) events)"
    using scan_batch [OF d s] by (simp add: pending_batch_handling empty_batch_def)
  have hs: "hs = fst (scan tm w a events h empty_batch)" using s by simp
  have only: "q = (k, e)" if "q \<in> set events" "fst q = k" for q
  proof -
    obtain k' e' where q: "q = (k', e')" by (cases q)
    with that have "(k, e') \<in> set events" by simp
    with d ke have "e' = e" by (meson eq_key_imp_eq_value)
    with q that show ?thesis by simp
  qed
  show ?thesis
  proof (cases "fresh a h (k, e)")
    case True
    then have "k \<in> set (handling b)" unfolding hb using ke by force
    from commit_in [OF this m] have c: "commit events (handling b) hs k = Some (LastDidRender e)" .
    from True have "a < LastDidRender e" by (simp add: fresh_def)
    with c show ?thesis unfolding pk by (simp add: hget_def)
  next
    case False
    have "k \<notin> set (handling b)"
    proof
      assume "k \<in> set (handling b)"
      then obtain q where q: "q \<in> set events" "fresh a h q" "fst q = k" unfolding hb by auto
      from only [OF q(1,3)] q(2) False show False by simp
    qed
    then have c: "commit events (handling b) hs k = hs k" by (rule commit_other)
    show ?thesis
    proof (cases "LastDidRender e \<le> a")
      case True
      from scan_stamped [OF d s ke True] c False True show ?thesis unfolding pk by simp
    next
      case na: False
      then have lt: "a < LastDidRender e" by simp
      from scan_fresh_unchanged [OF d ke lt] have "hs k = h k" unfolding hs .
      with c False lt show ?thesis unfolding pk by (simp add: fresh_def hget_def)
    qed
  qed
qed

subsection \<open>The four ways a run can end\<close>

lemma sleeps_append [simp]: "sleeps (xs @ ys) = sleeps xs @ sleeps ys"
  by (induction xs rule: sleeps.induct) simp_all


lemma onTemplateRendered_aborted:
  "scan tm w a events h empty_batch = (hs, es, None) \<Longrightarrow>
   onTemplateRendered tm w h a events = (hs, es)"
  by (simp add: onTemplateRendered_def)

lemma onTemplateRendered_nothing:
  "scan tm w a events h empty_batch = (hs, es, Some b) \<Longrightarrow> \<not> shouldHandle b \<Longrightarrow>
   onTemplateRendered tm w h a events = (hs, es)"
  by (simp add: onTemplateRendered_def)

lemma onTemplateRendered_interrupted:
  "scan tm w a events h empty_batch = (hs, es, Some b) \<Longrightarrow> shouldHandle b \<Longrightarrow>
   splay b \<noteq> 0 \<Longrightarrow> shutdown_during_sleep w \<Longrightarrow>
   onTemplateRendered tm w h a events = (hs, es @ [Sleep (Int63n w (splay b))])"
  by (simp add: onTemplateRendered_def)

lemma onTemplateRendered_applied:
  "scan tm w a events h empty_batch = (hs, es, Some b) \<Longrightarrow> shouldHandle b \<Longrightarrow>
   \<not> (splay b \<noteq> 0 \<and> shutdown_during_sleep w) \<Longrightarrow>
   onTemplateRendered tm w h a events =
     (commit events (handling b) hs,
      es @ (if splay b \<noteq> 0 then [Sleep (Int63n w (splay b))] else [])
         @ (if restart b then [Restart restart_event False]
            else handleChangeModeSignal tm w (signal_set b)
                 @ handleChangeModeScript w (scripts b)))"
  by (auto simp: onTemplateRendered_def)

lemma onTemplateRendered_cases [case_names aborted idle interrupted applied]:
  obtains
    hs es where "scan tm w a events h empty_batch = (hs, es, None)"
  | hs es b where "scan tm w a events h empty_batch = (hs, es, Some b)" "\<not> shouldHandle b"
  | hs es b where "scan tm w a events h empty_batch = (hs, es, Some b)" "shouldHandle b"
      "splay b \<noteq> 0" "shutdown_during_sleep w"
  | hs es b where "scan tm w a events h empty_batch = (hs, es, Some b)" "shouldHandle b"
      "\<not> (splay b \<noteq> 0 \<and> shutdown_during_sleep w)"
proof -
  obtain hs es r where s: "scan tm w a events h empty_batch = (hs, es, r)"
    using prod_cases3 by blast
  show ?thesis
  proof (cases r)
    case None
    with s that(1) show ?thesis by blast
  next
    case (Some b)
    with s that(2,3,4) show ?thesis by blast
  qed
qed




lemma actions_change_action:
  assumes "shouldHandle b"
  shows "\<exists>e \<in> set (if restart b then [Restart restart_event False]
                    else handleChangeModeSignal tm w (signal_set b)
                         @ handleChangeModeScript w (scripts b)). change_action e"
proof (cases "restart b")
  case True
  then show ?thesis by simp
next
  case False
  show ?thesis
  proof (cases "signal_set b")
    case Nil
    with assms False obtain sc scs where sc: "scripts b = sc # scs"
      by (auto simp: shouldHandle_def neq_Nil_conv)
    have "Exec (Timeout sc) (Command sc) (Args sc) \<in> set (handleChangeModeScript w (scripts b))"
      unfolding sc by (simp add: handleChangeModeScript_def processScript_def)
    then show ?thesis using False by (auto intro: bexI [where x = "Exec (Timeout sc) (Command sc) (Args sc)"])
  next
    case (Cons sg sgs)
    let ?e = "Signal (SetDisplayMessage ''Template re-rendered''
                      (SetTaskSignal (signals tm sg) (NewTaskEvent TaskSignaling))) sg"
    have "?e \<in> set (handleChangeModeSignal tm w (signal_set b))"
      unfolding Cons by (simp add: handleChangeModeSignal_def)
    then show ?thesis using False by (auto intro: bexI [where x = ?e])
  qed
qed

subsection \<open>Evaluating the examples\<close>

lemmas ex_defs =
  ex_restart_and_signal_def ex_batch_def ex_splayed_def ex_noop_splayed_def
  ex_batch_with_old_def ex_unknown_batch_def ex_dispatcher_def ex_event_def ex_world_def
  ex_template_def ex_noop_template_def ex_signal_template_def ex_config_def ex_script_def

lemmas run_defs =
  onTemplateRendered_def scan.simps(2) empty_batch_def shouldHandle_def hget_def
  loadTemplateEnv_def bump_splay_def kill_event_def restart_event_def
  NewTaskEvent_def SetDisplayMessage_def SetFailsTask_def SetTaskSignal_def
  handleChangeModeSignal_def handleChangeModeScript_def processScript_def
  TemplateChangeModeSignal_def TemplateChangeModeRestart_def
  TemplateChangeModeScript_def TemplateChangeModeNoop_def

lemma ex_run_restart:
  "snd (onTemplateRendered ex_restart_and_signal ex_world Map.empty 5 ex_batch)
     = [SetTemplateEnv Map.empty, SetTemplateEnv Map.empty, Restart restart_event False]"
  by (simp add: ex_defs run_defs List.insert_def)

lemma ex_scan_splayed:
  "scan ex_splayed w 5 ex_batch_with_old Map.empty empty_batch
     = ([''old'' \<mapsto> 5], [SetTemplateEnv Map.empty, SetTemplateEnv Map.empty],
        Some \<lparr> handling = [''n'', ''a''], signal_set = [], scripts = [], restart = True,
               splay = 4 \<rparr>)"
  by (simp add: ex_defs run_defs)

section \<open>The dispatcher: properties\<close>

subsection \<open>Restart supremacy\<close>

text \<open>
  Claim C3. Take a batch (an event map with distinct ids) in which some event is not stale
  and has a template of change mode \<open>restart\<close>. Then \<open>onTemplateRendered\<close> makes no \<open>Signal\<close>
  and no \<open>Exec\<close> call, however the run ends. When the batch is dispatched, that is, the scan
  meets no unknown id and no harvest failure and the shutdown channel does not cut the
  splay sleep short, the lifecycle calls of the run are exactly one \<open>Restart\<close> with event
  type \<open>TaskRestartSignal\<close> and the display message of the source.
\<close>

theorem restart_supremacy:
  assumes "distinct (map fst events)"
    and "(tid, ev) \<in> set events"
    and "allRenderedTime < LastDidRender ev"
    and "hget handledRenders tid < LastDidRender ev"
    and "map_of (lookup tm) tid = Some tmpls"
    and "t \<in> set tmpls"
    and "ChangeMode t = TemplateChangeModeRestart"
  shows "(\<forall>e \<in> set (snd (onTemplateRendered tm w handledRenders allRenderedTime events)).
            (\<forall>ev' s. e \<noteq> Signal ev' s) \<and> (\<forall>d c args. e \<noteq> Exec d c args))
       \<and> (scan_unhindered tm w allRenderedTime handledRenders events \<and> \<not> shutdown_during_sleep w
          \<longrightarrow> filter lifecycle_call
                (snd (onTemplateRendered tm w handledRenders allRenderedTime events))
              = [Restart \<lparr> Type = TaskRestartSignal, FailsTask = False,
                           DisplayMessage = ''Template with change_mode restart re-rendered'',
                           TaskSignal = None \<rparr> False])"
proof -
  let ?a = allRenderedTime and ?h = handledRenders
  have f: "fresh ?a ?h (tid, ev)" using assms(3,4) by (simp add: fresh_def)
  have t: "t \<in> set (templates_of tm (fst (tid, ev)))"
    using assms(5,6) by (simp add: templates_of_def)
  have r: "restart (pending_batch tm ?a ?h events empty_batch)"
    using assms(2) f t assms(7) by (rule pending_batch_restart)
  have ev: "restart_event = \<lparr> Type = TaskRestartSignal, FailsTask = False,
                           DisplayMessage = ''Template with change_mode restart re-rendered'',
                           TaskSignal = None \<rparr>"
    by (simp add: restart_event_def NewTaskEvent_def SetDisplayMessage_def)
  have 1: "\<forall>e \<in> set (snd (onTemplateRendered tm w ?h ?a events)).
            (\<forall>ev' s. e \<noteq> Signal ev' s) \<and> (\<forall>d c args. e \<noteq> Exec d c args)"
  proof (cases rule: onTemplateRendered_cases [where tm = tm and w = w and a = ?a
        and events = events and h = ?h])
    case (aborted hs es)
    from scan_effects [OF aborted] show ?thesis
      unfolding onTemplateRendered_aborted [OF aborted] by auto
  next
    case (idle hs es b)
    from scan_effects [OF idle(1)] show ?thesis
      unfolding onTemplateRendered_nothing [OF idle] by auto
  next
    case (interrupted hs es b)
    from scan_effects [OF interrupted(1)] show ?thesis
      unfolding onTemplateRendered_interrupted [OF interrupted] by auto
  next
    case (applied hs es b)
    from scan_batch [OF assms(1) applied(1)] r have "restart b" by simp
    with scan_effects [OF applied(1)] show ?thesis
      unfolding onTemplateRendered_applied [OF applied] by auto
  qed
  have 2: "filter lifecycle_call (snd (onTemplateRendered tm w ?h ?a events))
             = [Restart restart_event False]"
    if u: "scan_unhindered tm w ?a ?h events" and ns: "\<not> shutdown_during_sleep w"
  proof -
    let ?b = "pending_batch tm ?a ?h events empty_batch"
    from scan_completes [OF assms(1) u, of empty_batch]
    obtain hs es where s: "scan tm w ?a events ?h empty_batch = (hs, es, Some ?b)" by blast
    have sh: "shouldHandle ?b" using r by (simp add: shouldHandle_def)
    have ni: "\<not> (splay ?b \<noteq> 0 \<and> shutdown_during_sleep w)" using ns by simp
    from scan_effects [OF s] have "filter lifecycle_call es = []" by (auto simp: filter_empty_conv)
    then show ?thesis
      unfolding onTemplateRendered_applied [OF s sh ni] using r by simp
  qed
  show ?thesis using 1 2 unfolding ev by blast
qed

text \<open>
  A restart template and a signal template rendered in the same batch: one \<open>Restart\<close>,
  no \<open>Signal\<close>.
\<close>

theorem restart_supremacy_witness:
  "distinct (map fst ex_batch)
   \<and> (''a'', ex_event ''a'' 10) \<in> set ex_batch
   \<and> 5 < LastDidRender (ex_event ''a'' 10)
   \<and> map_of (lookup ex_restart_and_signal) ''a'' = Some [ex_template]
   \<and> ChangeMode ex_template = TemplateChangeModeRestart
   \<and> scan_unhindered ex_restart_and_signal ex_world 5 Map.empty ex_batch
   \<and> \<not> shutdown_during_sleep ex_world
   \<and> filter lifecycle_call
        (snd (onTemplateRendered ex_restart_and_signal ex_world Map.empty 5 ex_batch))
       = [Restart \<lparr> Type = TaskRestartSignal, FailsTask = False,
                    DisplayMessage = ''Template with change_mode restart re-rendered'',
                    TaskSignal = None \<rparr> False]"
proof -
  have 1: "distinct (map fst ex_batch)" by (simp add: ex_batch_def)
  have 2: "(''a'', ex_event ''a'' 10) \<in> set ex_batch" by (simp add: ex_batch_def)
  have 3: "5 < LastDidRender (ex_event ''a'' 10)" by (simp add: ex_event_def)
  have 4: "hget Map.empty ''a'' < LastDidRender (ex_event ''a'' 10)"
    by (simp add: ex_event_def hget_def)
  have 5: "map_of (lookup ex_restart_and_signal) ''a'' = Some [ex_template]"
    by (simp add: ex_restart_and_signal_def ex_dispatcher_def)
  have 6: "ex_template \<in> set [ex_template]" by simp
  have 7: "ChangeMode ex_template = TemplateChangeModeRestart" by (simp add: ex_template_def)
  have 8: "scan_unhindered ex_restart_and_signal ex_world 5 Map.empty ex_batch"
    by (simp add: scan_unhindered_def fresh_def ex_defs hget_def loadTemplateEnv_def)
  have 9: "\<not> shutdown_during_sleep ex_world" by (simp add: ex_world_def)
  from restart_supremacy [OF 1 2 3 4 5 6 7, of ex_world] 8 9
  have "filter lifecycle_call
        (snd (onTemplateRendered ex_restart_and_signal ex_world Map.empty 5 ex_batch))
       = [Restart \<lparr> Type = TaskRestartSignal, FailsTask = False,
                    DisplayMessage = ''Template with change_mode restart re-rendered'',
                    TaskSignal = None \<rparr> False]"
    by blast
  with 1 2 3 5 7 8 9 show ?thesis by blast
qed

subsection \<open>Shutdown during the splay\<close>

text \<open>
  Claim C10. Suppose the scan selected a batch \<open>b\<close> that needs handling, its splay is not
  zero, and the shutdown channel is closed during the sleep. Then \<open>onTemplateRendered\<close> returns
  right after the sleep with the map \<open>handledRenders\<close> as the scan left it, and makes no
  lifecycle call. The ids of the batch (\<open>handling\<close>) are the ids of the events that were not
  stale, and \<open>handledRenders\<close> is unchanged at each of them; the only entries that differ
  from before are stamps with \<open>allRenderedTime\<close> at events rendered no later than it. Every
  event that was not stale is still not stale, and scanning the same events again selects
  the same batch.
\<close>

theorem shutdown_during_splay_drops_batch:
  assumes "distinct (map fst events)"
    and "scan tm w allRenderedTime events handledRenders empty_batch = (hs, es, Some b)"
    and "shouldHandle b" and "splay b \<noteq> 0" and "shutdown_during_sleep w"
  shows "onTemplateRendered tm w handledRenders allRenderedTime events
           = (hs, es @ [Sleep (Int63n w (splay b))])
       \<and> (\<forall>e \<in> set (snd (onTemplateRendered tm w handledRenders allRenderedTime events)).
            \<not> lifecycle_call e)
       \<and> handling b = map fst (filter (fresh allRenderedTime handledRenders) events)
       \<and> (\<forall>tid \<in> set (handling b). hs tid = handledRenders tid)
       \<and> (\<forall>k. hs k \<noteq> handledRenders k \<longrightarrow>
              hs k = Some allRenderedTime
              \<and> (\<exists>ev. (k, ev) \<in> set events \<and> LastDidRender ev \<le> allRenderedTime))
       \<and> (\<forall>p \<in> set events. fresh allRenderedTime handledRenders p \<longrightarrow> fresh allRenderedTime hs p)
       \<and> scan tm w allRenderedTime events hs empty_batch = (hs, es, Some b)"
proof -
  let ?a = allRenderedTime and ?h = handledRenders
  note run = onTemplateRendered_interrupted [OF assms(2-5)]
  have hs: "hs = fst (scan tm w ?a events ?h empty_batch)" using assms(2) by simp
  have 2: "\<forall>e \<in> set (snd (onTemplateRendered tm w ?h ?a events)). \<not> lifecycle_call e"
    using scan_effects [OF assms(2)] unfolding run by auto
  have 3: "handling b = map fst (filter (fresh ?a ?h) events)"
    using scan_batch [OF assms(1,2)] by (simp add: pending_batch_handling empty_batch_def)
  have 6: "\<forall>p \<in> set events. fresh ?a ?h p \<longrightarrow> fresh ?a hs p"
    unfolding hs using scan_fresh_preserved [OF assms(1)] by blast
  have 4: "\<forall>tid \<in> set (handling b). hs tid = ?h tid"
  proof
    fix tid assume "tid \<in> set (handling b)"
    then obtain e where e: "(tid, e) \<in> set events" "fresh ?a ?h (tid, e)"
      unfolding 3 by auto
    then have "?a < LastDidRender e" by (simp add: fresh_def)
    from scan_fresh_unchanged [OF assms(1) e(1) this] show "hs tid = ?h tid" unfolding hs .
  qed
  have 5: "\<forall>k. hs k \<noteq> ?h k \<longrightarrow>
              hs k = Some ?a \<and> (\<exists>ev. (k, ev) \<in> set events \<and> LastDidRender ev \<le> ?a)"
    unfolding hs using scan_h_changed by blast
  have 7: "scan tm w ?a events hs empty_batch = (hs, es, Some b)"
    using assms(1,2) by (rule scan_idem)
  show ?thesis using run 2 3 4 5 6 7 by blast
qed

text \<open>
  A restart template with splay 4, a no-op template and an old event; the shutdown
  channel wins the select.
\<close>

theorem shutdown_during_splay_drops_batch_witness:
  "distinct (map fst ex_batch_with_old)
   \<and> shouldHandle \<lparr> handling = [''n'', ''a''], signal_set = [], scripts = [], restart = True,
                    splay = 4 \<rparr>
   \<and> shutdown_during_sleep (ex_world\<lparr> shutdown_during_sleep := True \<rparr>)
   \<and> onTemplateRendered ex_splayed (ex_world\<lparr> shutdown_during_sleep := True \<rparr>) Map.empty 5
        ex_batch_with_old
       = ([''old'' \<mapsto> 5], [SetTemplateEnv Map.empty, SetTemplateEnv Map.empty, Sleep 3])"
proof -
  let ?w = "ex_world\<lparr> shutdown_during_sleep := True \<rparr>"
  let ?b = "\<lparr> handling = [''n'', ''a''], signal_set = [], scripts = [], restart = True,
             splay = 4 \<rparr>"
  have 1: "distinct (map fst ex_batch_with_old)" by (simp add: ex_batch_with_old_def)
  have 3: "shouldHandle ?b" by (simp add: shouldHandle_def)
  have 4: "splay ?b \<noteq> 0" by simp
  have 5: "shutdown_during_sleep ?w" by simp
  from shutdown_during_splay_drops_batch [OF 1 ex_scan_splayed 3 4 5]
  have "onTemplateRendered ex_splayed ?w Map.empty 5 ex_batch_with_old
       = ([''old'' \<mapsto> 5], [SetTemplateEnv Map.empty, SetTemplateEnv Map.empty]
                              @ [Sleep (Int63n ?w (splay ?b))])"
    by blast
  then show ?thesis using 1 3 5 by (simp add: ex_world_def)
qed

subsection \<open>Feeding the same events twice\<close>

text \<open>
  Claim C4, amended. Feed the same event map (distinct ids) twice, carrying
  \<open>handledRenders\<close> over. With the collaborators behaving alike, the second feed makes no
  \<open>Restart\<close>, \<open>Signal\<close> or \<open>Exec\<close> call. When the first feed applied a change action, the second
  feed, whatever it meets, has no effect at all and leaves \<open>handledRenders\<close> as it is, and
  after the first feed \<open>handledRenders\<close> holds the last-did-render instant of every event
  that was acted upon. An event rendered no later than \<open>allRenderedTime\<close>, or no later than
  its \<open>handledRenders\<close> entry, is skipped by the scan (the first kind leaves the stamp
  \<open>allRenderedTime\<close>).
\<close>

theorem refeed_no_change_action:
  assumes "distinct (map fst events)"
  shows "(\<forall>e \<in> set (snd (onTemplateRendered tm w
                           (fst (onTemplateRendered tm w h a events)) a events)).
            \<not> change_action e)
       \<and> ((\<exists>e \<in> set (snd (onTemplateRendered tm w h a events)). change_action e) \<longrightarrow>
            onTemplateRendered tm w' (fst (onTemplateRendered tm w h a events)) a events
              = (fst (onTemplateRendered tm w h a events), [])
            \<and> (\<forall>p \<in> set events.
                  fresh a h p \<longrightarrow>
                  fst (onTemplateRendered tm w h a events) (fst p) = Some (LastDidRender (snd p))))
       \<and> (LastDidRender ev \<le> a \<longrightarrow>
            scan tm w a ((tid, ev) # evs) h b = scan tm w a evs (h(tid \<mapsto> a)) b)
       \<and> (a < LastDidRender ev \<and> LastDidRender ev \<le> hget h tid \<longrightarrow>
            scan tm w a ((tid, ev) # evs) h b = scan tm w a evs h b)"
proof -
  let ?run1 = "onTemplateRendered tm w h a events"
  have applied_case:
    "onTemplateRendered tm w' (fst ?run1) a events = (fst ?run1, [])
     \<and> (\<forall>p \<in> set events. fresh a h p \<longrightarrow> fst ?run1 (fst p) = Some (LastDidRender (snd p)))"
    if s: "scan tm w a events h empty_batch = (hs, es, Some b)" and sh: "shouldHandle b"
      and ni: "\<not> (splay b \<noteq> 0 \<and> shutdown_during_sleep w)" for hs es b w'
  proof -
    let ?h1 = "commit events (handling b) hs"
    have h1: "fst ?run1 = ?h1" unfolding onTemplateRendered_applied [OF s sh ni] by simp
    have "\<forall>p \<in> set events. (LastDidRender (snd p) \<le> a \<and> ?h1 (fst p) = Some a)
                 \<or> (a < LastDidRender (snd p) \<and> LastDidRender (snd p) \<le> hget ?h1 (fst p))"
      using applied_all_stale [OF assms s] by blast
    then have "scan tm w' a events ?h1 empty_batch = (?h1, [], Some empty_batch)"
      by (rule scan_all_stale)
    moreover have "\<not> shouldHandle empty_batch" by (simp add: shouldHandle_def empty_batch_def)
    ultimately have "onTemplateRendered tm w' ?h1 a events = (?h1, [])"
      by (rule onTemplateRendered_nothing)
    moreover have "\<forall>p \<in> set events. fresh a h p \<longrightarrow> ?h1 (fst p) = Some (LastDidRender (snd p))"
      using applied_all_stale [OF assms s] by blast
    ultimately show ?thesis unfolding h1 by simp
  qed
  have 1: "\<forall>e \<in> set (snd (onTemplateRendered tm w (fst ?run1) a events)). \<not> change_action e"
  proof (cases rule: onTemplateRendered_cases [where tm = tm and w = w and a = a
        and events = events and h = h])
    case (aborted hs es)
    note r1 = onTemplateRendered_aborted [OF aborted]
    from scan_idem [OF assms aborted] have "onTemplateRendered tm w hs a events = (hs, es)"
      by (rule onTemplateRendered_aborted)
    with scan_effects [OF aborted] show ?thesis unfolding r1 by simp
  next
    case (idle hs es b)
    note r1 = onTemplateRendered_nothing [OF idle]
    from scan_idem [OF assms idle(1)] idle(2) have "onTemplateRendered tm w hs a events = (hs, es)"
      by (rule onTemplateRendered_nothing)
    with scan_effects [OF idle(1)] show ?thesis unfolding r1 by simp
  next
    case (interrupted hs es b)
    note r1 = onTemplateRendered_interrupted [OF interrupted]
    from scan_idem [OF assms interrupted(1)] interrupted(2-4)
    have "onTemplateRendered tm w hs a events = (hs, es @ [Sleep (Int63n w (splay b))])"
      by (rule onTemplateRendered_interrupted)
    with scan_effects [OF interrupted(1)] show ?thesis unfolding r1 by simp
  next
    case (applied hs es b)
    from applied_case [OF applied, of w] show ?thesis by simp
  qed
  have 2: "onTemplateRendered tm w' (fst ?run1) a events = (fst ?run1, [])
     \<and> (\<forall>p \<in> set events. fresh a h p \<longrightarrow> fst ?run1 (fst p) = Some (LastDidRender (snd p)))"
    if ex: "\<exists>e \<in> set (snd ?run1). change_action e"
  proof (cases rule: onTemplateRendered_cases [where tm = tm and w = w and a = a
        and events = events and h = h])
    case (aborted hs es)
    from ex scan_effects [OF aborted] have False
      unfolding onTemplateRendered_aborted [OF aborted] by auto
    then show ?thesis ..
  next
    case (idle hs es b)
    from ex scan_effects [OF idle(1)] have False
      unfolding onTemplateRendered_nothing [OF idle] by auto
    then show ?thesis ..
  next
    case (interrupted hs es b)
    from ex scan_effects [OF interrupted(1)] have False
      unfolding onTemplateRendered_interrupted [OF interrupted] by auto
    then show ?thesis ..
  next
    case (applied hs es b)
    then show ?thesis by (rule applied_case)
  qed
  have 3: "LastDidRender ev \<le> a \<longrightarrow>
            scan tm w a ((tid, ev) # evs) h b = scan tm w a evs (h(tid \<mapsto> a)) b"
    by (simp add: scan_stamp)
  have 4: "a < LastDidRender ev \<and> LastDidRender ev \<le> hget h tid \<longrightarrow>
            scan tm w a ((tid, ev) # evs) h b = scan tm w a evs h b"
    by (simp add: scan_handled)
  show ?thesis using 1 2 3 4 by blast
qed

text \<open>The batch of the restart example, fed twice.\<close>

theorem refeed_no_change_action_witness:
  "distinct (map fst ex_batch)
   \<and> change_action (Restart restart_event False)
   \<and> Restart restart_event False
       \<in> set (snd (onTemplateRendered ex_restart_and_signal ex_world Map.empty 5 ex_batch))
   \<and> snd (onTemplateRendered ex_restart_and_signal ex_world
             (fst (onTemplateRendered ex_restart_and_signal ex_world Map.empty 5 ex_batch))
             5 ex_batch) = []
   \<and> fresh 5 Map.empty (''a'', ex_event ''a'' 10)
   \<and> fst (onTemplateRendered ex_restart_and_signal ex_world Map.empty 5 ex_batch) ''a''
       = Some 10"
proof -
  let ?run1 = "onTemplateRendered ex_restart_and_signal ex_world Map.empty 5 ex_batch"
  have 1: "distinct (map fst ex_batch)" by (simp add: ex_batch_def)
  have 2: "change_action (Restart restart_event False)" by simp
  have 3: "Restart restart_event False \<in> set (snd ?run1)" by (simp add: ex_run_restart)
  have 4: "\<exists>e \<in> set (snd ?run1). change_action e" using 2 3 by blast
  have 5: "(''a'', ex_event ''a'' 10) \<in> set ex_batch" by (simp add: ex_batch_def)
  have 6: "fresh 5 Map.empty (''a'', ex_event ''a'' 10)"
    by (simp add: fresh_def hget_def ex_event_def)
  from refeed_no_change_action [OF 1, of ex_restart_and_signal ex_world Map.empty 5 ex_world] 4
  have r: "onTemplateRendered ex_restart_and_signal ex_world (fst ?run1) 5 ex_batch = (fst ?run1, [])"
    and h: "\<forall>p \<in> set ex_batch. fresh 5 Map.empty p \<longrightarrow> fst ?run1 (fst p) = Some (LastDidRender (snd p))"
    by blast+
  from h 5 6 have "fst ?run1 ''a'' = Some 10" by (auto simp: ex_event_def)
  with r 1 2 3 6 show ?thesis by simp
qed

text \<open>
  Claim C4 as stated fails for an event whose id the manager does not know: the first feed
  calls \<open>Kill\<close> and returns before any commit, and the second feed calls \<open>Kill\<close> again.
\<close>

theorem refeed_kill_counterexample:
  "snd (onTemplateRendered ex_restart_and_signal ex_world Map.empty 5 ex_unknown_batch)
     = [Kill \<lparr> Type = TaskKilling, FailsTask = True,
               DisplayMessage = ''Template runner returned unknown template id '' @ quoted ''ghost'',
               TaskSignal = None \<rparr>]
   \<and> snd (onTemplateRendered ex_restart_and_signal ex_world
             (fst (onTemplateRendered ex_restart_and_signal ex_world Map.empty 5 ex_unknown_batch))
             5 ex_unknown_batch)
     = [Kill \<lparr> Type = TaskKilling, FailsTask = True,
               DisplayMessage = ''Template runner returned unknown template id '' @ quoted ''ghost'',
               TaskSignal = None \<rparr>]
   \<and> lifecycle_call (Kill \<lparr> Type = TaskKilling, FailsTask = True,
               DisplayMessage = ''Template runner returned unknown template id '' @ quoted ''ghost'',
               TaskSignal = None \<rparr>)"
  by (simp add: ex_defs run_defs)

subsection \<open>The splay delay\<close>




section \<open>The loops: properties\<close>

lemma prepend_snd [simp]: "snd (prepend effs r) = snd r"
  by (simp add: prepend_def)

lemma prepend_fst [simp]: "fst (prepend effs r) = effs @ fst r"
  by (simp add: prepend_def)

lemmas kill_event_defs =
  kill_event_def failed_event_def NewTaskEvent_def SetFailsTask_def SetDisplayMessage_def

subsection \<open>Missing dependencies\<close>

lemma missing_message_eq:
  assumes "finite missing"
  shows "missing_message missing =
           ''Missing: '' @ Join (if card missing \<le> 3 then sorted_list_of_set missing
                                else take 3 (sorted_list_of_set missing)
                                     @ [''and '' @ itoa (int (card missing) - 3) @ '' more''])
                               '', ''"
  using assms by (simp add: missing_message_def missingDepEventLimit_def Let_def)

text \<open>
  The set of missing dependencies is built by \<open>joined_set\<close> from the empty set, one
  insertion at a time, so it is finite in every state that the gate reaches from its
  initial state.
\<close>

lemma joined_set_finite: "finite s \<Longrightarrow> finite (joined_set evs s)"
  by (induction evs s rule: joined_set.induct) (auto split: option.splits)

lemma handleFirstRender_loop_finite:
  "\<forall>m. missingDependencies st = Some m \<longrightarrow> finite m \<Longrightarrow>
   snd (handleFirstRender_loop tm st cases) = Waiting st' \<Longrightarrow>
   \<forall>m. missingDependencies st' = Some m \<longrightarrow> finite m"
proof (induction cases arbitrary: st)
  case Nil
  then show ?case by simp
next
  case (Cons c cases)
  note inv = Cons.prems(1) and run = Cons.prems(2)
  show ?case
  proof (cases c)
    case FR_shutdownCh
    with run show ?thesis by simp
  next
    case (FR_ErrCh x)
    with run have "snd (handleFirstRender_loop tm st cases) = Waiting st'"
      by (cases x) simp_all
    with inv show ?thesis by (rule Cons.IH)
  next
    case (FR_TemplateRenderedCh evs w)
    obtain dirty ok where md: "mark_dirty evs (dirtyEvents st) = (dirty, ok)"
      by (cases "mark_dirty evs (dirtyEvents st)")
    show ?thesis
    proof (cases "length evs < length (lookup tm)")
      case True
      with run FR_TemplateRenderedCh have "snd (handleFirstRender_loop tm st cases) = Waiting st'"
        by simp
      with inv show ?thesis by (rule Cons.IH)
    next
      case False
      show ?thesis
      proof (cases ok)
        case True
        with run FR_TemplateRenderedCh False md have False by simp
        then show ?thesis ..
      next
        case nok: False
        with run FR_TemplateRenderedCh False md
        have r: "snd (handleFirstRender_loop tm (st\<lparr> dirtyEvents := dirty \<rparr>) cases) = Waiting st'"
          by simp
        have "\<forall>m. missingDependencies (st\<lparr> dirtyEvents := dirty \<rparr>) = Some m \<longrightarrow> finite m"
          using inv by simp
        from this r show ?thesis by (rule Cons.IH)
      qed
    qed
  next
    case (FR_RenderEventCh evs)
    let ?J = "joined_set evs {}"
    have j: "finite ?J" by (rule joined_set_finite) simp
    have i1: "\<forall>m. missingDependencies
                    (st\<lparr> missingDependencies := Some ?J, outstandingEvent := True \<rparr>) = Some m
                  \<longrightarrow> finite m"
      using j by simp
    have i2: "\<forall>m. missingDependencies (st\<lparr> missingDependencies := Some ?J \<rparr>) = Some m
                  \<longrightarrow> finite m"
      using j by simp
    from run FR_RenderEventCh
    consider "snd (handleFirstRender_loop tm st cases) = Waiting st'"
      | "snd (handleFirstRender_loop tm
               (st\<lparr> missingDependencies := Some ?J, outstandingEvent := True \<rparr>) cases) = Waiting st'"
      | "snd (handleFirstRender_loop tm (st\<lparr> missingDependencies := Some ?J \<rparr>) cases) = Waiting st'"
      by (simp add: Let_def prepend_def split: if_splits)
    then show ?thesis
    proof cases
      case 1
      with inv show ?thesis by (rule Cons.IH)
    next
      case 2
      with i1 show ?thesis by (rule Cons.IH)
    next
      case 3
      with i2 show ?thesis by (rule Cons.IH)
    qed
  next
    case FR_eventTimer
    from run FR_eventTimer
    consider "snd (handleFirstRender_loop tm st cases) = Waiting st'"
      | "snd (handleFirstRender_loop tm (st\<lparr> outstandingEvent := False \<rparr>) cases) = Waiting st'"
      by (simp add: prepend_def split: option.splits)
    then show ?thesis
    proof cases
      case 1
      with inv show ?thesis by (rule Cons.IH)
    next
      case 2
      have "\<forall>m. missingDependencies (st\<lparr> outstandingEvent := False \<rparr>) = Some m \<longrightarrow> finite m"
        using inv by simp
      from this 2 show ?thesis by (rule Cons.IH)
    qed
  qed
qed

lemma handleFirstRender_finite:
  "snd (handleFirstRender tm cases) = Waiting st \<Longrightarrow> missingDependencies st = Some m \<Longrightarrow>
   finite m"
  using handleFirstRender_loop_finite
          [of "\<lparr> missingDependencies = None, dirtyEvents = [], outstandingEvent = False \<rparr>"
              tm cases st]
  by (simp add: handleFirstRender_def)

text \<open>
  Claim C5. At a timer tick of the first-render gate with a missing-dependency set that is
  not nil, of size \<open>L\<close>, the tick emits exactly one event, of type \<open>Template\<close>, and the loop
  goes on with no outstanding event. The display message is \<open>Missing: \<close> followed by the
  sorted member names joined by a comma and a space when \<open>L \<le> 3\<close>, and by the first three
  sorted names and \<open>and (L-3) more\<close> otherwise. The set is finite in every state of the gate
  (\<open>handleFirstRender_finite\<close>).
\<close>

theorem missing_dependencies_event:
  assumes "finite missing" and "missingDependencies st = Some missing"
  shows "handleFirstRender_loop tm st (FR_eventTimer # cases)
           = prepend
               [EmitEvent
                  \<lparr> Type = EventType ''Template'', FailsTask = False,
                    DisplayMessage =
                      ''Missing: ''
                      @ Join (if card missing \<le> 3 then sorted_list_of_set missing
                              else take 3 (sorted_list_of_set missing)
                                   @ [''and '' @ itoa (int (card missing) - 3) @ '' more''])
                             '', '',
                    TaskSignal = None \<rparr>]
               (handleFirstRender_loop tm (st\<lparr> outstandingEvent := False \<rparr>) cases)
       \<and> sorted (sorted_list_of_set missing)
       \<and> distinct (sorted_list_of_set missing)
       \<and> set (sorted_list_of_set missing) = missing
       \<and> length (sorted_list_of_set missing) = card missing"
  using assms
  by (simp add: missing_message_eq NewTaskEvent_def SetDisplayMessage_def
        consulTemplateSourceName_def)

lemma ex_sorted: "sorted_list_of_set {''e'', ''b'', ''a'', ''d'', ''c''} = [''a'', ''b'', ''c'', ''d'', ''e'']"
  by code_simp

lemma ex_card: "card {''e'', ''b'', ''a'', ''d'', ''c''} = 5"
  by simp

text \<open>The set \<open>{a, b, c, d, e}\<close> yields \<open>Missing: a, b, c, and 2 more\<close>.\<close>

theorem missing_dependencies_event_witness:
  "finite {''e'', ''b'', ''a'', ''d'', ''c''}
   \<and> missingDependencies ex_gate = Some {''e'', ''b'', ''a'', ''d'', ''c''}
   \<and> fst (handleFirstRender_loop (ex_manager [ex_template]) ex_gate [FR_eventTimer])
       = [EmitEvent \<lparr> Type = EventType ''Template'', FailsTask = False,
                      DisplayMessage = ''Missing: a, b, c, and 2 more'', TaskSignal = None \<rparr>]"
proof -
  have 1: "finite {''e'', ''b'', ''a'', ''d'', ''c''}" by simp
  have 2: "missingDependencies ex_gate = Some {''e'', ''b'', ''a'', ''d'', ''c''}"
    by (simp add: ex_gate_def)
  have 3: "itoa 2 = ''2''" by (simp add: itoa_def itoa_nat.simps)
  from missing_dependencies_event [OF 1 2, of "ex_manager [ex_template]" "[]"] 1 2 3 show ?thesis
    by (simp add: ex_sorted ex_card)
qed

subsection \<open>Engine errors\<close>

lemma handleFirstRender_loop_errors:
  "handleFirstRender_loop tm st (map (\<lambda>e. FR_ErrCh (Some e)) errs)
     = (map (\<lambda>e. Kill (failed_event e)) errs, Waiting st)"
  by (induction errs) (simp_all add: prepend_def kill_event_defs)

lemma handleTemplateRerenders_loop_errors:
  "handleTemplateRerenders_loop tm a h (map (\<lambda>e. RR_ErrCh (Some e)) errs)
     = (map (\<lambda>e. Kill (failed_event e)) errs, Waiting h)"
  by (induction errs) (simp_all add: prepend_def kill_event_defs)

lemma handleTemplateRerenders_loop_returns:
  "snd (handleTemplateRerenders_loop tm a h rcases) = Returned
     \<longleftrightarrow> RR_shutdownCh \<in> set rcases \<or> RR_DoneCh \<in> set rcases"
proof (induction rcases arbitrary: h)
  case Nil
  then show ?case by simp
next
  case (Cons c rcases)
  show ?case
  proof (cases c)
    case (RR_ErrCh x)
    then show ?thesis using Cons.IH by (cases x) simp_all
  next
    case (RR_TemplateRenderedCh evs w)
    then show ?thesis using Cons.IH by (simp split: prod.splits)
  qed simp_all
qed

lemma mark_dirty_snd:
  "snd (mark_dirty events dirty) = list_all (\<lambda>(tid, event). LastWouldRender event \<noteq> 0) events"
  by (induction events dirty rule: mark_dirty.induct) simp_all

lemma gate_exit_simps [simp]:
  "gate_exit tm FR_shutdownCh"
  "\<not> gate_exit tm (FR_ErrCh x)"
  "\<not> gate_exit tm (FR_RenderEventCh evs)"
  "\<not> gate_exit tm FR_eventTimer"
  "gate_exit tm (FR_TemplateRenderedCh events w)
     \<longleftrightarrow> \<not> length events < length (lookup tm) \<and> snd (mark_dirty events dirty)"
  by (simp_all add: gate_exit_def all_rendered_def mark_dirty_snd)

lemma handleFirstRender_loop_returns_iff:
  "snd (handleFirstRender_loop tm st cases) = Returned \<longleftrightarrow> (\<exists>c \<in> set cases. gate_exit tm c)"
proof (induction cases arbitrary: st)
  case Nil
  then show ?case by simp
next
  case (Cons c cases)
  show ?case
  proof (cases c)
    case FR_shutdownCh
    then show ?thesis by simp
  next
    case (FR_ErrCh x)
    then show ?thesis using Cons.IH [of st] by (cases x) simp_all
  next
    case (FR_TemplateRenderedCh evs w)
    obtain dirty ok where md: "mark_dirty evs (dirtyEvents st) = (dirty, ok)"
      by (cases "mark_dirty evs (dirtyEvents st)")
    have ge: "gate_exit tm c \<longleftrightarrow> \<not> length evs < length (lookup tm) \<and> ok"
      using gate_exit_simps(5) [of tm evs w "dirtyEvents st"] md FR_TemplateRenderedCh by simp
    show ?thesis
    proof (cases "\<not> length evs < length (lookup tm) \<and> ok")
      case True
      with md FR_TemplateRenderedCh ge show ?thesis by simp
    next
      case False
      then obtain st2 where
        "snd (handleFirstRender_loop tm st (c # cases)) = snd (handleFirstRender_loop tm st2 cases)"
        using md FR_TemplateRenderedCh by (cases "length evs < length (lookup tm)") auto
      then have "snd (handleFirstRender_loop tm st (c # cases)) = Returned
                   \<longleftrightarrow> (\<exists>c \<in> set cases. gate_exit tm c)"
        using Cons.IH [of st2] by simp
      moreover have "\<not> gate_exit tm c" using False ge by simp
      ultimately show ?thesis by simp
    qed
  next
    case (FR_RenderEventCh evs)
    then show ?thesis using Cons.IH by (simp add: Let_def)
  next
    case FR_eventTimer
    then show ?thesis using Cons.IH by (simp split: option.splits)
  qed
qed

lemma handleFirstRender_loop_erase:
  "snd (handleFirstRender_loop tm st (filter (\<lambda>c. \<not> is_FR_ErrCh c) cases))
     = snd (handleFirstRender_loop tm st cases)"
proof (induction cases arbitrary: st)
  case Nil
  then show ?case by simp
next
  case (Cons c cases)
  show ?case
  proof (cases c)
    case FR_shutdownCh
    then show ?thesis by simp
  next
    case (FR_ErrCh x)
    then show ?thesis using Cons.IH [of st] by (cases x) simp_all
  next
    case (FR_TemplateRenderedCh evs w)
    then show ?thesis using Cons.IH by (simp split: prod.splits bool.splits)
  next
    case (FR_RenderEventCh evs)
    then show ?thesis using Cons.IH by (simp add: Let_def)
  next
    case FR_eventTimer
    then show ?thesis using Cons.IH by (simp split: option.splits)
  qed
qed

lemma handleTemplateRerenders_loop_erase:
  "snd (handleTemplateRerenders_loop tm a h (filter (\<lambda>c. \<not> is_RR_ErrCh c) rcases))
     = snd (handleTemplateRerenders_loop tm a h rcases)"
proof (induction rcases arbitrary: h)
  case Nil
  then show ?case by simp
next
  case (Cons c rcases)
  show ?case
  proof (cases c)
    case (RR_ErrCh x)
    then show ?thesis using Cons.IH [of h] by (cases x) simp_all
  next
    case (RR_TemplateRenderedCh evs w)
    then show ?thesis using Cons.IH by (simp split: prod.splits)
  qed simp_all
qed

text \<open>
  Claim C7. In both loops, an error received from the engine's error channel yields exactly
  one \<open>Kill\<close> with a \<open>TaskKilling\<close> event that has the fails-task flag and the message
  \<open>Template failed: \<close> followed by the error text, and the loop goes on from the same state
  with the cases that follow. An error never makes a loop return: a run that only receives
  errors never returns, and erasing the error cases from any run changes neither whether the
  loop returns nor the state in which it waits. The steady state loop returns exactly when
  the shutdown or the done channel is taken. The gate does not wait for the shutdown
  channel: it returns exactly when the shutdown channel is taken or a template-rendered
  case finds every template rendered, whether or not an error came before.
\<close>

theorem engine_error_kills_and_continues:
  "handleFirstRender_loop tm st (FR_ErrCh (Some err) # cases)
     = prepend [Kill \<lparr> Type = TaskKilling, FailsTask = True,
                       DisplayMessage = ''Template failed: '' @ err, TaskSignal = None \<rparr>]
         (handleFirstRender_loop tm st cases)
   \<and> handleTemplateRerenders_loop tm a h (RR_ErrCh (Some err) # rcases)
     = prepend [Kill \<lparr> Type = TaskKilling, FailsTask = True,
                       DisplayMessage = ''Template failed: '' @ err, TaskSignal = None \<rparr>]
         (handleTemplateRerenders_loop tm a h rcases)
   \<and> handleFirstRender_loop tm st (map (\<lambda>e. FR_ErrCh (Some e)) errs)
     = (map (\<lambda>e. Kill (failed_event e)) errs, Waiting st)
   \<and> handleTemplateRerenders_loop tm a h (map (\<lambda>e. RR_ErrCh (Some e)) errs)
     = (map (\<lambda>e. Kill (failed_event e)) errs, Waiting h)
   \<and> snd (handleFirstRender_loop tm st (filter (\<lambda>c. \<not> is_FR_ErrCh c) cases))
     = snd (handleFirstRender_loop tm st cases)
   \<and> snd (handleTemplateRerenders_loop tm a h (filter (\<lambda>c. \<not> is_RR_ErrCh c) rcases))
     = snd (handleTemplateRerenders_loop tm a h rcases)
   \<and> (snd (handleTemplateRerenders_loop tm a h rcases) = Returned
        \<longleftrightarrow> RR_shutdownCh \<in> set rcases \<or> RR_DoneCh \<in> set rcases)
   \<and> (snd (handleFirstRender_loop tm st cases) = Returned
        \<longleftrightarrow> (\<exists>c \<in> set cases. c = FR_shutdownCh \<or> all_rendered tm c))"
  using handleFirstRender_loop_errors [of tm st errs]
    handleTemplateRerenders_loop_errors [of tm a h errs]
    handleFirstRender_loop_erase [of tm st cases]
    handleTemplateRerenders_loop_erase [of tm a h rcases]
    handleTemplateRerenders_loop_returns [of tm a h rcases]
    handleFirstRender_loop_returns_iff [of tm st cases]
  by (simp add: kill_event_defs gate_exit_def)

text \<open>
  Two errors in a row in each loop leave it waiting in its initial state; with a shutdown
  after them each loop returns.
\<close>

theorem engine_error_kills_and_continues_witness:
  "handleFirstRender (ex_manager [ex_template]) [FR_ErrCh (Some ''boom''), FR_ErrCh (Some ''again'')]
     = ([Kill \<lparr> Type = TaskKilling, FailsTask = True,
                DisplayMessage = ''Template failed: boom'', TaskSignal = None \<rparr>,
         Kill \<lparr> Type = TaskKilling, FailsTask = True,
                DisplayMessage = ''Template failed: again'', TaskSignal = None \<rparr>],
        Waiting \<lparr> missingDependencies = None, dirtyEvents = [], outstandingEvent = False \<rparr>)
   \<and> handleTemplateRerenders (ex_manager [ex_template]) 5
        [RR_ErrCh (Some ''boom''), RR_ErrCh (Some ''again'')]
     = ([Kill \<lparr> Type = TaskKilling, FailsTask = True,
                DisplayMessage = ''Template failed: boom'', TaskSignal = None \<rparr>,
         Kill \<lparr> Type = TaskKilling, FailsTask = True,
                DisplayMessage = ''Template failed: again'', TaskSignal = None \<rparr>],
        Waiting Map.empty)
   \<and> snd (handleTemplateRerenders (ex_manager [ex_template]) 5
        [RR_ErrCh (Some ''boom''), RR_ErrCh (Some ''again''), RR_shutdownCh]) = Returned
   \<and> RR_shutdownCh \<in> set [RR_ErrCh (Some ''boom''), RR_ErrCh (Some ''again''), RR_shutdownCh]
   \<and> snd (handleFirstRender (ex_manager [ex_template])
        [FR_ErrCh (Some ''boom''), FR_ErrCh (Some ''again''), FR_shutdownCh]) = Returned
   \<and> FR_shutdownCh \<in> set [FR_ErrCh (Some ''boom''), FR_ErrCh (Some ''again''), FR_shutdownCh]"
  using engine_error_kills_and_continues
          [of "ex_manager [ex_template]"
              "\<lparr> missingDependencies = None, dirtyEvents = [], outstandingEvent = False \<rparr>"
              "''boom''" "[]" 5 Map.empty "[]" "[''boom'', ''again'']"]
        engine_error_kills_and_continues
          [of "ex_manager [ex_template]"
              "\<lparr> missingDependencies = None, dirtyEvents = [], outstandingEvent = False \<rparr>"
              "''boom''" "[FR_ErrCh (Some ''boom''), FR_ErrCh (Some ''again''), FR_shutdownCh]"
              5 Map.empty
              "[RR_ErrCh (Some ''boom''), RR_ErrCh (Some ''again''), RR_shutdownCh]" "[]"]
  by (simp add: handleFirstRender_def handleTemplateRerenders_def failed_event_def)

text \<open>
  The gate does not go on until the shutdown channel is signalled. A task with one template
  that is not running yet: the engine reports an error, the gate answers with the \<open>Kill\<close>,
  then the template renders and the gate leaves its loop (\<open>break WAIT\<close>), although the
  shutdown channel was never taken.
\<close>

theorem gate_exits_without_shutdown_counterexample:
  "handleFirstRender (ex_manager [ex_template])
     [FR_ErrCh (Some ''boom''),
      FR_TemplateRenderedCh
        [(''/alloc/web/local/app.conf'', ex_event ''/alloc/web/local/app.conf'' 10)]
        (ex_world\<lparr> Lifecycle_IsRunning := False \<rparr>)]
     = ([Kill \<lparr> Type = TaskKilling, FailsTask = True,
                DisplayMessage = ''Template failed: boom'', TaskSignal = None \<rparr>], Returned)
   \<and> FR_shutdownCh \<notin> set
       [FR_ErrCh (Some ''boom''),
        FR_TemplateRenderedCh
          [(''/alloc/web/local/app.conf'', ex_event ''/alloc/web/local/app.conf'' 10)]
          (ex_world\<lparr> Lifecycle_IsRunning := False \<rparr>)]"
  by (simp add: handleFirstRender_def ex_manager_def ex_event_def ex_world_def prepend_def
        kill_event_defs)

end
